theory Spec2Isabelle
  imports Main
begin

section \<open>Strings: the library functions the code calls\<close>

text \<open>
  Go strings are byte sequences; they are modelled as \<open>string\<close> (a list of 8-bit
  characters). \<open>strings.Split\<close> with a one-byte separator cuts at every occurrence of
  the separator and always returns at least one field (\<open>Split("", sep)\<close> is one empty
  field). The scan keeps the field read so far in an accumulator.
\<close>

abbreviation newline :: char where
  "newline \<equiv> CHR 0x0A"

abbreviation pipe :: char where
  "pipe \<equiv> CHR ''|''"

fun split_from :: "char \<Rightarrow> string \<Rightarrow> string \<Rightarrow> string list" where
  "split_from sep cur [] = [cur]"
| "split_from sep cur (c # cs) =
     (if c = sep then cur # split_from sep [] cs else split_from sep (cur @ [c]) cs)"

definition strings_Split :: "string \<Rightarrow> char \<Rightarrow> string list" where
  "strings_Split s sep = split_from sep [] s"

text \<open>
  \<open>strings.Fields\<close> cuts around runs of white space and returns no empty field. White
  space is what \<open>unicode.IsSpace\<close> accepts: the six ASCII bytes (tab, line feed,
  vertical tab, form feed, carriage return, space) and the runes U+0085, U+00A0, U+1680,
  U+2000 to U+200A, U+2028, U+2029, U+202F, U+205F and U+3000, here in their UTF-8
  encodings. Go decodes the string rune by rune; a first byte of one of these encodings is
  never a continuation byte, so a rune always starts where an encoding occurs, and a
  byte-wise scan that tests for the encodings finds the same fields.
\<close>

definition white_space :: "string list" where
  "white_space =
     [[CHR 0x09], [CHR 0x0A], [CHR 0x0B], [CHR 0x0C], [CHR 0x0D], [CHR 0x20],
      [CHR 0xC2, CHR 0x85], [CHR 0xC2, CHR 0xA0], [CHR 0xE1, CHR 0x9A, CHR 0x80],
      [CHR 0xE2, CHR 0x80, CHR 0x80], [CHR 0xE2, CHR 0x80, CHR 0x81],
      [CHR 0xE2, CHR 0x80, CHR 0x82], [CHR 0xE2, CHR 0x80, CHR 0x83],
      [CHR 0xE2, CHR 0x80, CHR 0x84], [CHR 0xE2, CHR 0x80, CHR 0x85],
      [CHR 0xE2, CHR 0x80, CHR 0x86], [CHR 0xE2, CHR 0x80, CHR 0x87],
      [CHR 0xE2, CHR 0x80, CHR 0x88], [CHR 0xE2, CHR 0x80, CHR 0x89],
      [CHR 0xE2, CHR 0x80, CHR 0x8A], [CHR 0xE2, CHR 0x80, CHR 0xA8],
      [CHR 0xE2, CHR 0x80, CHR 0xA9], [CHR 0xE2, CHR 0x80, CHR 0xAF],
      [CHR 0xE2, CHR 0x81, CHR 0x9F], [CHR 0xE3, CHR 0x80, CHR 0x80]]"

text \<open>
  The number of bytes of the white-space rune that a string starts with, 0 when it
  starts with none.
\<close>

definition space_width :: "string \<Rightarrow> nat" where
  "space_width s =
     (case find (\<lambda>e. take (length e) s = e) white_space of
        None \<Rightarrow> 0
      | Some e \<Rightarrow> length e)"

text \<open>
  The scan of \<open>Fields\<close>: \<open>cur\<close> is the field read so far and \<open>skip\<close> the number
  of bytes still to pass over of a white-space rune that has been recognised.
\<close>

fun fields_from :: "string \<Rightarrow> nat \<Rightarrow> string \<Rightarrow> string list" where
  "fields_from cur skip [] = (if cur = [] then [] else [cur])"
| "fields_from cur skip (c # cs) =
     (if 0 < skip then fields_from cur (skip - 1) cs
      else if 0 < space_width (c # cs) then
        (if cur = [] then fields_from [] (space_width (c # cs) - 1) cs
         else cur # fields_from [] (space_width (c # cs) - 1) cs)
      else fields_from (cur @ [c]) 0 cs)"

definition strings_Fields :: "string \<Rightarrow> string list" where
  "strings_Fields s = fields_from [] 0 s"

text \<open>\<open>strings.Trim(s, cutset)\<close> removes the bytes of the cutset from both ends.\<close>

definition strings_Trim :: "string \<Rightarrow> string \<Rightarrow> string" where
  "strings_Trim s cutset =
     rev (dropWhile (\<lambda>c. c \<in> set cutset) (rev (dropWhile (\<lambda>c. c \<in> set cutset) s)))"

section \<open>The file under the write-ahead log\<close>

text \<open>
  The log file is the byte sequence written so far, together with the part of it that the
  last successful \<open>Sync\<close> made durable. I/O failures are a schedule carried by the file:
  each write system call consumes one entry of \<open>wfaults\<close> (\<open>None\<close>: the call
  succeeds; \<open>Some (n, e)\<close>: it fails with message \<open>e\<close> after \<open>n\<close> bytes), each
  \<open>Sync\<close> one entry of \<open>sfaults\<close>; an exhausted schedule means success. Opening and
  reading the file for replay fail when \<open>openfault\<close> or \<open>readfault\<close> is set.
\<close>

record osfile =
  fdata :: string
  durable :: string
  wfaults :: "(nat \<times> string) option list"
  sfaults :: "string option list"
  openfault :: "string option"
  readfault :: "string option"

text \<open>
  \<open>File.Write\<close> appends the bytes (the WAL file is written at its end only) and
  returns the number of bytes written and the error; \<open>File.Sync\<close> makes what the
  file holds durable.
\<close>

definition file_Write :: "osfile \<Rightarrow> string \<Rightarrow> (nat \<times> string option) \<times> osfile" where
  "file_Write f p =
     (case wfaults f of
        [] \<Rightarrow> ((length p, None), f\<lparr>fdata := fdata f @ p\<rparr>)
      | None # r \<Rightarrow> ((length p, None), f\<lparr>fdata := fdata f @ p, wfaults := r\<rparr>)
      | Some (n, e) # r \<Rightarrow>
          ((min n (length p), Some e), f\<lparr>fdata := fdata f @ take n p, wfaults := r\<rparr>))"

definition file_Sync :: "osfile \<Rightarrow> string option \<times> osfile" where
  "file_Sync f =
     (case sfaults f of
        [] \<Rightarrow> (None, f\<lparr>durable := fdata f\<rparr>)
      | None # r \<Rightarrow> (None, f\<lparr>durable := fdata f, sfaults := r\<rparr>)
      | Some e # r \<Rightarrow> (Some e, f\<lparr>sfaults := r\<rparr>))"

section \<open>The buffered writer\<close>

text \<open>
  \<open>bufio.Writer\<close>: \<open>buf\<close> holds the buffered bytes (\<open>b.buf[0:b.n]\<close>), \<open>bsize\<close> is
  the capacity of the buffer and \<open>werr\<close> the sticky error: once a write to the file has
  failed, every later \<open>Write\<close> and \<open>Flush\<close> returns that error. The writer and the
  file it writes to make up the WAL.
\<close>

record Writer =
  buf :: string
  bsize :: nat
  werr :: "string option"

record WAL =
  wal_file :: osfile
  wal_writer :: Writer

text \<open>\<open>Writer.Available\<close>: the free space of the buffer, \<open>len(b.buf) - b.n\<close>.\<close>

definition Available :: "Writer \<Rightarrow> nat" where
  "Available b = bsize b - length (buf b)"

text \<open>
  \<open>Writer.Flush\<close>: a pending error is returned at once; an empty buffer needs no
  write; otherwise the buffer goes to the file, and on an error the bytes not written
  stay in the buffer and the error sticks.
\<close>

definition Writer_Flush :: "WAL \<Rightarrow> string option \<times> WAL" where
  "Writer_Flush w =
     (case werr (wal_writer w) of
        Some e \<Rightarrow> (Some e, w)
      | None \<Rightarrow>
          if buf (wal_writer w) = [] then (None, w)
          else
            (case file_Write (wal_file w) (buf (wal_writer w)) of
               ((n, e0), f') \<Rightarrow>
                 (case (if n < length (buf (wal_writer w)) \<and> e0 = None
                        then Some ''short write'' else e0) of
                    Some e \<Rightarrow>
                      (Some e,
                       w\<lparr>wal_file := f',
                         wal_writer := (wal_writer w)\<lparr>buf := drop n (buf (wal_writer w)), werr := Some e\<rparr>\<rparr>)
                  | None \<Rightarrow> (None, w\<lparr>wal_file := f', wal_writer := (wal_writer w)\<lparr>buf := []\<rparr>\<rparr>))))"

text \<open>
  \<open>Writer.Write\<close>: while the bytes do not fit and no error is pending, either pass them
  to the file directly (empty buffer) or fill the buffer and flush it; what is left then
  goes into the buffer. The byte count that Go returns is dropped: \<open>WAL.Write\<close> ignores
  it. \<open>WriteString\<close> on a file-backed writer takes the same steps.
\<close>

function Writer_Write :: "WAL \<Rightarrow> string \<Rightarrow> string option \<times> WAL" where
  "Writer_Write w p =
     (if length p > Available (wal_writer w) \<and> werr (wal_writer w) = None then
        (if buf (wal_writer w) = [] then
           (case file_Write (wal_file w) p of
              ((n, e), f') \<Rightarrow>
                Writer_Write (w\<lparr>wal_file := f', wal_writer := (wal_writer w)\<lparr>werr := e\<rparr>\<rparr>) (drop n p))
         else
           (let n = Available (wal_writer w);
                w1 = w\<lparr>wal_writer := (wal_writer w)\<lparr>buf := buf (wal_writer w) @ take n p\<rparr>\<rparr>
            in Writer_Write (snd (Writer_Flush w1)) (drop n p)))
      else
        (case werr (wal_writer w) of
           Some e \<Rightarrow> (Some e, w)
         | None \<Rightarrow> (None, w\<lparr>wal_writer := (wal_writer w)\<lparr>buf := buf (wal_writer w) @ p\<rparr>\<rparr>)))"
  by pat_completeness auto

termination
  apply (relation "measure (\<lambda>(w, p). case werr (wal_writer w) of Some e \<Rightarrow> 0
                    | None \<Rightarrow> 2 * length p + (if buf (wal_writer w) = [] then 0 else 1))")
    apply simp
   apply (auto simp: file_Write_def split: list.splits option.splits prod.splits)[1]
  apply (auto simp: Writer_Flush_def file_Write_def split: list.splits option.splits prod.splits)
  done

declare Writer_Write.simps [simp del]

section \<open>The write-ahead log\<close>

text \<open>
  \<open>OpenOrCreateWAL\<close> wraps the file in a \<open>bufio.NewWriter\<close>, whose buffer has the
  default size of 4096 bytes and starts empty.
\<close>

definition OpenOrCreateWAL :: "osfile \<Rightarrow> WAL" where
  "OpenOrCreateWAL f = \<lparr>wal_file = f, wal_writer = \<lparr>buf = [], bsize = 4096, werr = None\<rparr>\<rparr>"

text \<open>\<open>WAL.flushBuffer\<close> wraps the error of \<open>Flush\<close>.\<close>

definition flushBuffer :: "WAL \<Rightarrow> string option \<times> WAL" where
  "flushBuffer w =
     (case Writer_Flush w of
        (Some e, w') \<Rightarrow> (Some (''failed to flush buffer to file: '' @ e), w')
      | (None, w') \<Rightarrow> (None, w'))"

text \<open>
  The loop of \<open>WAL.Write\<close> over its arguments: each one gets the delimiter appended and
  goes to the buffered writer; the first error ends the loop.
\<close>

fun write_args :: "WAL \<Rightarrow> string list \<Rightarrow> string option \<times> WAL" where
  "write_args w [] = (None, w)"
| "write_args w (d # ds) =
     (case Writer_Write w (d @ [pipe]) of
        (Some e, w') \<Rightarrow> (Some (''failed to write to buffer: '' @ e), w')
      | (None, w') \<Rightarrow> write_args w' ds)"

text \<open>
  \<open>WAL.Write(data ...[]byte)\<close>. The guard before the loop compares \<open>len(data)\<close>, the
  number of arguments, with the free space of the buffer.
\<close>

definition WAL_Write :: "WAL \<Rightarrow> string list \<Rightarrow> string option \<times> WAL" where
  "WAL_Write w data =
     (case (if length data > Available (wal_writer w) then flushBuffer w else (None, w)) of
        (Some e, w1) \<Rightarrow> (Some (''failed to flush buffer: '' @ e), w1)
      | (None, w1) \<Rightarrow>
          (case write_args w1 data of
             (Some e, w2) \<Rightarrow> (Some e, w2)
           | (None, w2) \<Rightarrow>
               (case Writer_Write w2 [newline] of
                  (Some e, w3) \<Rightarrow> (Some (''failed to write end byte to buffer: '' @ e), w3)
                | (None, w3) \<Rightarrow> (None, w3))))"

text \<open>
  \<open>WAL.Persist\<close>: flush, sync, then \<open>Reset\<close> the writer (which empties the buffer
  and clears the sticky error).
\<close>

definition Persist :: "WAL \<Rightarrow> string option \<times> WAL" where
  "Persist w =
     (case Writer_Flush w of
        (Some e, w1) \<Rightarrow> (Some (''failed to flush buffer: '' @ e), w1)
      | (None, w1) \<Rightarrow>
          (case file_Sync (wal_file w1) of
             (Some e, f') \<Rightarrow> (Some (''failed to sync file: '' @ e), w1\<lparr>wal_file := f'\<rparr>)
           | (None, f') \<Rightarrow>
               (None, w1\<lparr>wal_file := f', wal_writer := (wal_writer w1)\<lparr>buf := [], werr := None\<rparr>\<rparr>)))"

text \<open>An entry of the log, as \<open>ReadEntries\<close> returns it.\<close>

record Entry =
  Key :: string
  Value :: string
  Delete :: bool

text \<open>
  The parsing loop of \<open>ReadEntries\<close> over the lines of the file: empty lines are
  skipped, then the first pipe-separated field selects the case (\<open>strings.Split\<close>
  returns at least one field, so \<open>args[0]\<close> is always there).
\<close>

fun read_cmds :: "string list \<Rightarrow> Entry list" where
  "read_cmds [] = []"
| "read_cmds (cmd # cmds) =
     (if cmd = [] then read_cmds cmds
      else
        (let args = strings_Split cmd pipe in
         if hd args = ''+'' then
           (if length args \<noteq> 4 then read_cmds cmds
            else \<lparr>Key = args ! 1, Value = args ! 2, Delete = False\<rparr> # read_cmds cmds)
         else if hd args = ''-'' then
           (if length args \<noteq> 3 then read_cmds cmds
            else \<lparr>Key = args ! 1, Value = [], Delete = True\<rparr> # read_cmds cmds)
         else read_cmds cmds))"

text \<open>
  \<open>ReadEntries\<close> opens the file by its path and reads all of it; it panics when either
  step fails (\<open>Inl\<close> carries the panic message).
\<close>

definition ReadEntries :: "WAL \<Rightarrow> string + Entry list" where
  "ReadEntries w =
     (case openfault (wal_file w) of
        Some e \<Rightarrow> Inl (''failed to open WAL file for reading: '' @ e)
      | None \<Rightarrow>
          (case readfault (wal_file w) of
             Some e \<Rightarrow> Inl (''failed to read data from WAL file: '' @ e)
           | None \<Rightarrow> Inr (read_cmds (strings_Split (fdata (wal_file w)) newline))))"

text \<open>
  \<open>InitDB\<close> replays the file onto the LSM tree. The tree is code of the package
  \<open>log_structured_merge_tree\<close>; its \<open>Put\<close> and \<open>Del\<close> are parameters here.
\<close>

fun replay_cmds ::
  "('t \<Rightarrow> string \<Rightarrow> string \<Rightarrow> 't) \<Rightarrow> ('t \<Rightarrow> string \<Rightarrow> 't) \<Rightarrow> 't \<Rightarrow> string list \<Rightarrow> 't" where
  "replay_cmds put del t [] = t"
| "replay_cmds put del t (cmd # cmds) =
     (if cmd = [] then replay_cmds put del t cmds
      else
        (let args = strings_Split cmd pipe in
         if hd args = ''+'' then
           (if length args \<noteq> 4 then replay_cmds put del t cmds
            else replay_cmds put del (put t (args ! 1) (args ! 2)) cmds)
         else if hd args = ''-'' then
           (if length args \<noteq> 3 then replay_cmds put del t cmds
            else replay_cmds put del (del t (args ! 1)) cmds)
         else replay_cmds put del t cmds))"

definition InitDB ::
  "('t \<Rightarrow> string \<Rightarrow> string \<Rightarrow> 't) \<Rightarrow> ('t \<Rightarrow> string \<Rightarrow> 't) \<Rightarrow> WAL \<Rightarrow> 't \<Rightarrow> string option \<times> 't" where
  "InitDB put del w t =
     (case openfault (wal_file w) of
        Some e \<Rightarrow> (Some (''failed to open WAL file for reading: '' @ e), t)
      | None \<Rightarrow>
          (case readfault (wal_file w) of
             Some e \<Rightarrow> (Some (''failed to read data from WAL file: '' @ e), t)
           | None \<Rightarrow> (None, replay_cmds put del t (strings_Split (fdata (wal_file w)) newline))))"

section \<open>The command handlers\<close>

text \<open>
  The engine the handlers work on: the LSM tree and the WAL (the handlers do not touch
  the third field of \<open>DBEngine\<close>, the Disk Store). The tree is code of the package
  \<open>log_structured_merge_tree\<close>, so the handlers take its three operations as a
  parameter. \<open>Get\<close> returns \<open>(val, exist)\<close> in Go; \<open>None\<close> stands for
  \<open>exist = false\<close>.
\<close>

record 't DBEngine =
  LsmTree :: 't
  Wal :: WAL

record 't LSMTreeOps =
  Put :: "'t \<Rightarrow> string \<Rightarrow> string \<Rightarrow> 't"
  Get :: "'t \<Rightarrow> string \<Rightarrow> string option"
  Del :: "'t \<Rightarrow> string \<Rightarrow> 't"

text \<open>
  The body of the loop of \<open>handleConnection\<close>, applied to the text that the scanner
  has delivered: it writes a response (\<open>Fprintln\<close> puts a space between its
  operands and a newline at the end), or the goroutine panics on an index out of range.
\<close>

datatype outcome = Reply string | Panic string

definition handleLine ::
  "'t LSMTreeOps \<Rightarrow> 't DBEngine \<Rightarrow> string \<Rightarrow> outcome \<times> 't DBEngine" where
  "handleLine ops db text =
     (let cmd = strings_Fields text in
      if length cmd = 0 then (Reply (''Invalid command'' @ [newline]), db)
      else if cmd ! 0 = ''PUT'' then
        (if length cmd \<noteq> 3 then (Reply (''Invalid command'' @ [newline]), db)
         else
           (case WAL_Write (Wal db) [''+'', cmd ! 1, cmd ! 2] of
              (Some err, w') \<Rightarrow>
                (Reply (''Error writing to WAL: '' @ err @ [newline]), db\<lparr>Wal := w'\<rparr>)
            | (None, w') \<Rightarrow>
                (Reply (''OK'' @ [newline]),
                 db\<lparr>LsmTree := Put ops (LsmTree db) (cmd ! 1) (cmd ! 2), Wal := w'\<rparr>)))
      else if cmd ! 0 = ''GET'' then
        (case Persist (Wal db) of
           (Some err, w') \<Rightarrow>
             (Reply (''Error persisting WAL: '' @ err @ [newline]), db\<lparr>Wal := w'\<rparr>)
         | (None, w') \<Rightarrow>
             (if length cmd \<le> 1
              then (Panic ''index out of range [1] with length 1'', db\<lparr>Wal := w'\<rparr>)
              else
                (case Get ops (LsmTree db) (cmd ! 1) of
                   None \<Rightarrow> (Reply (''Data not found'' @ [newline]), db\<lparr>Wal := w'\<rparr>)
                 | Some val \<Rightarrow> (Reply (val @ [newline]), db\<lparr>Wal := w'\<rparr>))))
      else if cmd ! 0 = ''DEL'' then
        (if length cmd \<noteq> 2 then (Reply (''Invalid command'' @ [newline]), db)
         else
           (case WAL_Write (Wal db) [''-'', cmd ! 1] of
              (Some err, w') \<Rightarrow>
                (Reply (''Error writing to WAL: '' @ err @ [newline]), db\<lparr>Wal := w'\<rparr>)
            | (None, w') \<Rightarrow>
                (Reply (''OK'' @ [newline]),
                 db\<lparr>LsmTree := Del ops (LsmTree db) (cmd ! 1), Wal := w'\<rparr>)))
      else (Reply (''Invalid command'' @ [newline]), db))"

text \<open>
  The \<open>bufio.Scanner\<close> of the connection, with its default split function
  \<open>ScanLines\<close> and its default limit \<open>MaxScanTokenSize\<close> of 64 KiB. The state of
  the scanner is the input not yet consumed (all bytes that the client sends until the
  connection ends). \<open>Scan\<close> delivers the next line without its newline and without one
  trailing carriage return; a last line without newline is delivered too. The buffer of
  the scanner grows to 65536 bytes and no further, so a line of 65536 bytes or more
  (newline not counted) never fits: \<open>Scan\<close> then fails with \<open>ErrTooLong\<close>, as it
  does at the end of the input, and \<open>None\<close> stands for either.
\<close>

definition MaxScanTokenSize :: nat where
  "MaxScanTokenSize = 64 * 1024"

definition dropCR :: "string \<Rightarrow> string" where
  "dropCR s = (if s \<noteq> [] \<and> last s = CHR 0x0D then butlast s else s)"

definition Scan :: "string \<Rightarrow> (string \<times> string) option" where
  "Scan inp =
     (if inp = [] then None
      else
        (let line = takeWhile (\<lambda>c. c \<noteq> newline) inp in
         if MaxScanTokenSize \<le> length line then None
         else Some (dropCR line, drop (length line + 1) inp)))"

text \<open>
  \<open>handleConnection\<close>: the loop \<open>for scanner.Scan()\<close> over the input of the
  connection. The result is the responses written in order, whether the loop ended in a
  panic, and the engine at the end. When \<open>Scan\<close> fails the loop ends, nothing more is
  written and the deferred \<open>conn.Close()\<close> runs.
\<close>

function handleConnection ::
  "'t LSMTreeOps \<Rightarrow> 't DBEngine \<Rightarrow> string \<Rightarrow> (string list \<times> bool) \<times> 't DBEngine" where
  "handleConnection ops db inp =
     (case Scan inp of
        None \<Rightarrow> (([], False), db)
      | Some (text, rest) \<Rightarrow>
          (case handleLine ops db text of
             (Panic m, db') \<Rightarrow> (([], True), db')
           | (Reply r, db') \<Rightarrow>
               (case handleConnection ops db' rest of
                  ((rs, panicked), db'') \<Rightarrow> ((r # rs, panicked), db''))))"
  by pat_completeness auto

termination
  apply (relation "measure (\<lambda>(ops, db, inp). length inp)")
   apply simp
  apply (auto simp: Scan_def Let_def split: if_splits)
  done

declare handleConnection.simps [simp del]

text \<open>\<open>handleUDPPacket\<close>: one datagram, one response (without a newline).\<close>

definition handleUDPPacket ::
  "'t LSMTreeOps \<Rightarrow> 't DBEngine \<Rightarrow> string \<Rightarrow> string \<times> 't DBEngine" where
  "handleUDPPacket ops db request =
     (let cmd = strings_Fields request in
      if length cmd = 0 then (''Invalid command'', db)
      else if cmd ! 0 = ''GET'' then
        (if length cmd \<noteq> 2 then (''Invalid command'', db)
         else
           (case Persist (Wal db) of
              (Some err, w') \<Rightarrow> (''Error persisting WAL'', db\<lparr>Wal := w'\<rparr>)
            | (None, w') \<Rightarrow>
                (case Get ops (LsmTree db) (strings_Trim (cmd ! 1) [newline]) of
                   None \<Rightarrow> (''Data not found'', db\<lparr>Wal := w'\<rparr>)
                 | Some val \<Rightarrow> (val, db\<lparr>Wal := w'\<rparr>))))
      else if cmd ! 0 = ''PUT'' then
        (if length cmd \<noteq> 3 then (''Invalid command'', db)
         else
           (case WAL_Write (Wal db) [''+'', cmd ! 1, cmd ! 2] of
              (Some err, w') \<Rightarrow> (''Error writing to WAL: '' @ err, db\<lparr>Wal := w'\<rparr>)
            | (None, w') \<Rightarrow>
                (''OK'', db\<lparr>LsmTree := Put ops (LsmTree db) (cmd ! 1) (cmd ! 2), Wal := w'\<rparr>)))
      else if cmd ! 0 = ''DEL'' then
        (if length cmd \<noteq> 2 then (''Invalid command'', db)
         else
           (case WAL_Write (Wal db) [''-'', cmd ! 1] of
              (Some err, w') \<Rightarrow> (''Error writing to WAL: '' @ err, db\<lparr>Wal := w'\<rparr>)
            | (None, w') \<Rightarrow>
                (''OK'', db\<lparr>LsmTree := Del ops (LsmTree db) (cmd ! 1), Wal := w'\<rparr>)))
      else (''Invalid command'', db))"

section \<open>Notions used in the statements\<close>

text \<open>
  The log as a reader sees it once everything buffered has reached the file: the bytes
  of the file followed by the bytes still in the buffer.
\<close>

definition stream :: "WAL \<Rightarrow> string" where
  "stream w = fdata (wal_file w) @ buf (wal_writer w)"

text \<open>No I/O error is scheduled or pending on the WAL.\<close>

definition no_faults :: "WAL \<Rightarrow> bool" where
  "no_faults w \<longleftrightarrow>
     wfaults (wal_file w) = [] \<and> sfaults (wal_file w) = [] \<and> openfault (wal_file w) = None
     \<and> readfault (wal_file w) = None \<and> werr (wal_writer w) = None"

text \<open>A key or value that keeps clear of the two delimiters of the record format.\<close>

definition plain :: "string \<Rightarrow> bool" where
  "plain s \<longleftrightarrow> pipe \<notin> set s \<and> newline \<notin> set s"

text \<open>
  A mutation, the arguments with which the handlers pass it to \<open>WAL.Write\<close>, the entry
  that stands for it, and a run of \<open>WAL.Write\<close> calls that stops at the first error.
\<close>

datatype mutation = PutOp string string | DeleteOp string

fun op_args :: "mutation \<Rightarrow> string list" where
  "op_args (PutOp k v) = [''+'', k, v]"
| "op_args (DeleteOp k) = [''-'', k]"

fun op_entry :: "mutation \<Rightarrow> Entry" where
  "op_entry (PutOp k v) = \<lparr>Key = k, Value = v, Delete = False\<rparr>"
| "op_entry (DeleteOp k) = \<lparr>Key = k, Value = [], Delete = True\<rparr>"

fun op_plain :: "mutation \<Rightarrow> bool" where
  "op_plain (PutOp k v) \<longleftrightarrow> plain k \<and> plain v"
| "op_plain (DeleteOp k) \<longleftrightarrow> plain k"

fun write_ops :: "WAL \<Rightarrow> mutation list \<Rightarrow> string option \<times> WAL" where
  "write_ops w [] = (None, w)"
| "write_ops w (m # ms) =
     (case WAL_Write w (op_args m) of
        (Some e, w') \<Rightarrow> (Some e, w')
      | (None, w') \<Rightarrow> write_ops w' ms)"

text \<open>
  What the spec asks a parser to accept from one line: a Put record is a line of 4
  pipe-separated fields that starts with \<open>+\<close>, a Delete record one of 3 that starts with
  \<open>-\<close>; nothing else stands for an entry.
\<close>

definition line_entries :: "string \<Rightarrow> Entry list" where
  "line_entries l =
     (case strings_Split l pipe of
        [op, k, v, t] \<Rightarrow> if op = ''+'' then [\<lparr>Key = k, Value = v, Delete = False\<rparr>] else []
      | [op, k, t] \<Rightarrow> if op = ''-'' then [\<lparr>Key = k, Value = [], Delete = True\<rparr>] else []
      | _ \<Rightarrow> [])"

definition apply_entry ::
  "('t \<Rightarrow> string \<Rightarrow> string \<Rightarrow> 't) \<Rightarrow> ('t \<Rightarrow> string \<Rightarrow> 't) \<Rightarrow> 't \<Rightarrow> Entry \<Rightarrow> 't" where
  "apply_entry put del t e = (if Delete e then del t (Key e) else put t (Key e) (Value e))"

text \<open>The file that \<open>os.Create\<close> hands to \<open>OpenOrCreateWAL\<close> when the path is new.\<close>

definition created_file :: osfile where
  "created_file =
     \<lparr>fdata = [], durable = [], wfaults = [], sfaults = [], openfault = None, readfault = None\<rparr>"

text \<open>The bytes of the record of a mutation, without the closing newline.\<close>

definition op_line :: "mutation \<Rightarrow> string" where
  "op_line m = concat (map (\<lambda>d. d @ [pipe]) (op_args m))"

section \<open>The LSM index and the Disk Store\<close>

text \<open>
  The packages \<open>log_structured_merge_tree\<close> and \<open>disk_store\<close> are not among the
  sources of the repository; this section models them from the spec, definition by
  definition.
\<close>

text \<open>
  Modelled from the spec: the value of a memtable entry (package
  \<open>log_structured_merge_tree\<close>), a value or a tombstone.
\<close>

datatype mval = Val string | Tombstone

text \<open>
  Modelled from the spec: the LSM index (type \<open>LSMTree\<close> of the missing package
  \<open>log_structured_merge_tree\<close>) together with the Disk Store it flushes to and reads
  from (type \<open>DiskStore\<close> of the missing package \<open>disk_store\<close>). The memtable is an
  association list, newest entry first; the order by key that the spec asks of a flush
  is left out. The Bloom filter is the set of the bit positions that are set, and
  \<open>bloom_hashes\<close> gives the positions of a key. The Disk Store is the list of its
  partitions, each a key-value association list, and \<open>partition_hash\<close> is its hash.
\<close>

record LSMTree =
  memtable :: "(string \<times> mval) list"
  bloom :: "nat set"
  partitions :: "(string \<times> string) list list"
  MaxElementsBeforeFlush :: nat
  bloom_hashes :: "string \<Rightarrow> nat list"
  partition_hash :: "string \<Rightarrow> nat"

text \<open>
  Modelled from the spec: insert or overwrite in the ordered mapping of the memtable or
  of a partition (missing packages \<open>log_structured_merge_tree\<close>, \<open>disk_store\<close>).
\<close>

definition mem_set :: "string \<Rightarrow> 'a \<Rightarrow> (string \<times> 'a) list \<Rightarrow> (string \<times> 'a) list" where
  "mem_set k e m = (k, e) # filter (\<lambda>p. fst p \<noteq> k) m"

text \<open>Modelled from the spec: the Bloom filter's \<open>insert(key)\<close> (missing from the sources).\<close>

definition bloom_insert :: "LSMTree \<Rightarrow> string \<Rightarrow> nat set" where
  "bloom_insert t k = bloom t \<union> set (bloom_hashes t k)"

text \<open>Modelled from the spec: the Bloom filter's \<open>contains(key)\<close> (missing from the sources).\<close>

definition bloom_contains :: "LSMTree \<Rightarrow> string \<Rightarrow> bool" where
  "bloom_contains t k \<longleftrightarrow> set (bloom_hashes t k) \<subseteq> bloom t"

text \<open>
  Modelled from the spec: the partition of a key in the Disk Store (missing package
  \<open>disk_store\<close>), \<open>partition_id = hash(key) mod NumOfPartitions\<close>.
\<close>

definition partition_id :: "LSMTree \<Rightarrow> string \<Rightarrow> nat" where
  "partition_id t k = partition_hash t k mod length (partitions t)"

text \<open>
  Modelled from the spec: the Disk Store's \<open>get(key)\<close> (missing package \<open>disk_store\<close>),
  a lookup in the owning partition.
\<close>

definition disk_get :: "LSMTree \<Rightarrow> string \<Rightarrow> string option" where
  "disk_get t k = map_of (partitions t ! partition_id t k) k"

text \<open>
  Modelled from the spec: one step of the Disk Store's \<open>ingest\<close> (missing package
  \<open>disk_store\<close>): the entry is routed to its partition and merged there, a tombstone
  removing the key.
\<close>

fun ingest_entry :: "LSMTree \<Rightarrow> string \<times> mval \<Rightarrow> LSMTree" where
  "ingest_entry t (k, Val v) =
     t\<lparr>partitions := (partitions t)[partition_id t k :=
          mem_set k v (partitions t ! partition_id t k)]\<rparr>"
| "ingest_entry t (k, Tombstone) =
     t\<lparr>partitions := (partitions t)[partition_id t k :=
          filter (\<lambda>p. fst p \<noteq> k) (partitions t ! partition_id t k)]\<rparr>"

text \<open>
  Modelled from the spec: the Disk Store's \<open>ingest(frozen_memtable)\<close> (missing package
  \<open>disk_store\<close>). The entries are taken oldest first, so that the newest entry of a key
  decides.
\<close>

fun ingest :: "LSMTree \<Rightarrow> (string \<times> mval) list \<Rightarrow> LSMTree" where
  "ingest t [] = t"
| "ingest t (e # es) = ingest_entry (ingest t es) e"

text \<open>
  Modelled from the spec: the flush protocol of the LSM index (missing package
  \<open>log_structured_merge_tree\<close>): the memtable is frozen, an empty one takes its place
  and the frozen one goes to the Disk Store. By itself \<open>lsm_flush\<close> stands for a flush
  that the compaction timer starts. The truncation of the WAL that follows a flush acts
  on the WAL, not on the tree.
\<close>

definition lsm_flush :: "LSMTree \<Rightarrow> LSMTree" where
  "lsm_flush t = (ingest t (memtable t))\<lparr>memtable := []\<rparr>"

text \<open>
  Modelled from the spec: the saturation check of \<open>put\<close> and \<open>del\<close> (missing package
  \<open>log_structured_merge_tree\<close>). The spec's flush is asynchronous; here a triggered
  flush runs at once.
\<close>

definition saturation_check :: "LSMTree \<Rightarrow> LSMTree" where
  "saturation_check t =
     (if length (memtable t) > MaxElementsBeforeFlush t then lsm_flush t else t)"

text \<open>
  Modelled from the spec: \<open>put\<close> of the LSM index (missing package
  \<open>log_structured_merge_tree\<close>) without its saturation check: insert or overwrite in
  the memtable and insert the key into the Bloom filter.
\<close>

definition lsm_put_unchecked :: "LSMTree \<Rightarrow> string \<Rightarrow> string \<Rightarrow> LSMTree" where
  "lsm_put_unchecked t k v =
     t\<lparr>memtable := mem_set k (Val v) (memtable t), bloom := bloom_insert t k\<rparr>"

text \<open>
  Modelled from the spec: \<open>LSMTree.Put\<close> (missing package \<open>log_structured_merge_tree\<close>).
\<close>

definition lsm_put :: "LSMTree \<Rightarrow> string \<Rightarrow> string \<Rightarrow> LSMTree" where
  "lsm_put t k v = saturation_check (lsm_put_unchecked t k v)"

text \<open>
  Modelled from the spec: \<open>LSMTree.Del\<close> (missing package \<open>log_structured_merge_tree\<close>):
  a tombstone goes into the memtable, the Bloom filter is left alone, then the same
  saturation check.
\<close>

definition lsm_del :: "LSMTree \<Rightarrow> string \<Rightarrow> LSMTree" where
  "lsm_del t k = saturation_check (t\<lparr>memtable := mem_set k Tombstone (memtable t)\<rparr>)"

text \<open>
  Modelled from the spec: \<open>LSMTree.Get\<close> (missing package \<open>log_structured_merge_tree\<close>).
  When the filter reports absence the memtable is skipped and the Disk Store is asked;
  otherwise a value in the memtable is returned, a tombstone is NotFound at once, and a
  miss falls through to the Disk Store.
\<close>

definition lsm_get :: "LSMTree \<Rightarrow> string \<Rightarrow> string option" where
  "lsm_get t k =
     (if \<not> bloom_contains t k then disk_get t k
      else
        (case map_of (memtable t) k of
           Some (Val v) \<Rightarrow> Some v
         | Some Tombstone \<Rightarrow> None
         | None \<Rightarrow> disk_get t k))"

text \<open>The three operations of the modelled tree, as the handlers take them.\<close>

definition LSM_ops :: "LSMTree LSMTreeOps" where
  "LSM_ops = \<lparr>Put = lsm_put, Get = lsm_get, Del = lsm_del\<rparr>"



section \<open>Startup\<close>





section \<open>Further notions used in the statements\<close>

text \<open>
  A token of the wire protocol: not empty and free of white space, that is, no
  white-space rune starts anywhere in it.
\<close>

fun no_space :: "string \<Rightarrow> bool" where
  "no_space [] \<longleftrightarrow> True"
| "no_space (c # cs) \<longleftrightarrow> space_width (c # cs) = 0 \<and> no_space cs"

definition token :: "string \<Rightarrow> bool" where
  "token s \<longleftrightarrow> s \<noteq> [] \<and> no_space s"





text \<open>
  Modelled from the spec: the tree as \<open>LsmTree.New\<close> and \<open>diskstore.New\<close> (missing
  packages) make it at startup: empty memtable and empty filter over the partition files
  found on disk.
\<close>

definition new_tree ::
  "nat \<Rightarrow> (string \<Rightarrow> nat list) \<Rightarrow> (string \<Rightarrow> nat) \<Rightarrow> (string \<times> string) list list \<Rightarrow> LSMTree" where
  "new_tree n bh ph ps =
     \<lparr>memtable = [], bloom = {}, partitions = ps, MaxElementsBeforeFlush = n,
      bloom_hashes = bh, partition_hash = ph\<rparr>"

text \<open>The engine that \<open>NewServer\<close> builds of a tree and a WAL opened on a file.\<close>

definition new_engine :: "LSMTree \<Rightarrow> osfile \<Rightarrow> LSMTree DBEngine" where
  "new_engine t f = \<lparr>LsmTree = t, Wal = OpenOrCreateWAL f\<rparr>"

text \<open>
  The tokens of the command that asks for a mutation, and the mutation applied to the
  tree through the operations handed to the handlers.
\<close>

fun op_cmd :: "mutation \<Rightarrow> string list" where
  "op_cmd (PutOp k v) = [''PUT'', k, v]"
| "op_cmd (DeleteOp k) = [''DEL'', k]"

fun apply_mutation :: "'t LSMTreeOps \<Rightarrow> 't \<Rightarrow> mutation \<Rightarrow> 't" where
  "apply_mutation ops t (PutOp k v) = Put ops t k v"
| "apply_mutation ops t (DeleteOp k) = Del ops t k"

text \<open>The response to a lookup, as both handlers word it (TCP adds the newline).\<close>

definition lookup_response :: "string option \<Rightarrow> string" where
  "lookup_response r = (case r of None \<Rightarrow> ''Data not found'' | Some val \<Rightarrow> val)"

text \<open>
  A small engine to run the handlers on: a tree that flushes beyond two entries, with one
  hash position per key (its length) and a single, empty partition, over a new WAL file.
\<close>

definition tree0 :: LSMTree where
  "tree0 = new_tree 2 (\<lambda>k. [length k]) length [[]]"

definition engine0 :: "LSMTree DBEngine" where
  "engine0 = new_engine tree0 created_file"

text \<open>
  A WAL whose writer carries the error of an earlier failed flush, and an engine whose
  WAL file will fail its next \<open>Sync\<close>.
\<close>

definition failed_wal :: WAL where
  "failed_wal =
     \<lparr>wal_file = created_file,
      wal_writer = \<lparr>buf = [], bsize = 4096, werr = Some ''no space left on device''\<rparr>\<rparr>"

definition engine_sync_fails :: "LSMTree DBEngine" where
  "engine_sync_fails = new_engine tree0 (created_file\<lparr>sfaults := [Some ''input/output error'']\<rparr>)"

text \<open>
  409 ten-byte records in the 4096-byte buffer of a new WAL: 6 bytes are free.
\<close>

definition nearly_full_wal :: WAL where
  "nearly_full_wal =
     \<lparr>wal_file = created_file,
      wal_writer = \<lparr>buf = concat (replicate 409 (''+|kkk|vv|'' @ [newline])), bsize = 4096,
                    werr = None\<rparr>\<rparr>"

text \<open>
  What the index holds for a key when the memtable is asked first, and the condition
  under which the Bloom filter may be trusted when it reports absence: such a key is
  neither on disk nor live in the memtable.
\<close>

definition view :: "LSMTree \<Rightarrow> string \<Rightarrow> string option" where
  "view t k =
     (case map_of (memtable t) k of
        Some (Val v) \<Rightarrow> Some v
      | Some Tombstone \<Rightarrow> None
      | None \<Rightarrow> disk_get t k)"





text \<open>
  Two engines whose WAL holds an acknowledged record in its buffer and nothing in its
  file: on the first no I/O fault is scheduled, on the second the next \<open>Sync\<close> fails.
\<close>

definition engine_buffered :: "LSMTree DBEngine" where
  "engine_buffered =
     \<lparr>LsmTree = lsm_put tree0 ''foo'' ''bar'',
      Wal = \<lparr>wal_file = created_file,
             wal_writer = \<lparr>buf = ''+|foo|bar|'' @ [newline], bsize = 4096, werr = None\<rparr>\<rparr>\<rparr>"

definition engine_buffered_sync_fails :: "LSMTree DBEngine" where
  "engine_buffered_sync_fails =
     \<lparr>LsmTree = lsm_put tree0 ''foo'' ''bar'',
      Wal = \<lparr>wal_file = created_file\<lparr>sfaults := [Some ''input/output error'']\<rparr>,
             wal_writer = \<lparr>buf = ''+|foo|bar|'' @ [newline], bsize = 4096, werr = None\<rparr>\<rparr>\<rparr>"

section \<open>Splitting\<close>

lemma split_from_nonempty: "split_from sep cur s \<noteq> []"
  by (induction s arbitrary: cur) auto

lemma split_from_append_sep:
  "split_from sep cur (a @ sep # b) = split_from sep cur a @ split_from sep [] b"
  by (induction a arbitrary: cur) auto

lemma split_from_no_sep: "sep \<notin> set a \<Longrightarrow> split_from sep cur a = [cur @ a]"
  by (induction a arbitrary: cur) auto

lemma strings_Split_nonempty: "strings_Split s sep \<noteq> []"
  by (simp add: strings_Split_def split_from_nonempty)

lemma strings_Split_append_sep:
  "strings_Split (a @ sep # b) sep = strings_Split a sep @ strings_Split b sep"
  by (simp add: strings_Split_def split_from_append_sep)

lemma strings_Split_no_sep: "sep \<notin> set a \<Longrightarrow> strings_Split a sep = [a]"
  by (simp add: strings_Split_def split_from_no_sep)

lemma strings_Split_put_line:
  assumes "pipe \<notin> set k" "pipe \<notin> set v"
  shows "strings_Split (''+|'' @ k @ ''|'' @ v @ ''|'') pipe = [''+'', k, v, []]"
proof -
  have "strings_Split (''+'' @ pipe # (k @ pipe # (v @ pipe # []))) pipe
        = strings_Split ''+'' pipe @ strings_Split k pipe @ strings_Split v pipe @ strings_Split [] pipe"
    by (simp only: strings_Split_append_sep)
  with assms show ?thesis by (simp add: strings_Split_no_sep)
qed

lemma strings_Split_del_line:
  assumes "pipe \<notin> set k"
  shows "strings_Split (''-|'' @ k @ ''|'') pipe = [''-'', k, []]"
proof -
  have "strings_Split (''-'' @ pipe # (k @ pipe # [])) pipe
        = strings_Split ''-'' pipe @ strings_Split k pipe @ strings_Split [] pipe"
    by (simp only: strings_Split_append_sep)
  with assms show ?thesis by (simp add: strings_Split_no_sep)
qed

section \<open>The buffered writer\<close>

lemma Writer_Flush_ok:
  "Writer_Flush w = (None, w') \<Longrightarrow>
     fdata (wal_file w') = stream w \<and> buf (wal_writer w') = [] \<and> werr (wal_writer w') = None
     \<and> bsize (wal_writer w') = bsize (wal_writer w)"
  by (auto simp: Writer_Flush_def file_Write_def stream_def
      split: list.splits option.splits prod.splits if_splits)

lemma Writer_Flush_err:
  "Writer_Flush w = (Some e, w') \<Longrightarrow> werr (wal_writer w') = Some e"
  by (auto simp: Writer_Flush_def file_Write_def
      split: list.splits option.splits prod.splits if_splits)

lemma Writer_Write_sticky:
  "werr (wal_writer w) = Some e \<Longrightarrow> Writer_Write w p = (Some e, w)"
  by (simp add: Writer_Write.simps[of w p])

lemma file_Write_ok:
  "file_Write f p = ((n, None), f') \<Longrightarrow> n = length p \<and> fdata f' = fdata f @ p"
  by (auto simp: file_Write_def split: list.splits option.splits prod.splits)

lemma Writer_Write_ok:
  "Writer_Write w p = (None, w') \<Longrightarrow> stream w' = stream w @ p \<and> werr (wal_writer w') = None"
proof (induction w p arbitrary: w' rule: Writer_Write.induct)
  case (1 w p)
  show ?case
  proof (cases "length p > Available (wal_writer w) \<and> werr (wal_writer w) = None")
    case False
    with "1.prems" show ?thesis
      by (auto simp: Writer_Write.simps[of w p] stream_def split: option.splits)
  next
    case guard: True
    show ?thesis
    proof (cases "buf (wal_writer w) = []")
      case True
      obtain n e f' where fw: "file_Write (wal_file w) p = ((n, e), f')"
        by (metis surj_pair)
      let ?w2 = "w\<lparr>wal_file := f', wal_writer := (wal_writer w)\<lparr>werr := e\<rparr>\<rparr>"
      from "1.prems" guard True fw have rec: "Writer_Write ?w2 (drop n p) = (None, w')"
        by (simp add: Writer_Write.simps[of w p])
      have e: "e = None"
      proof (cases e)
        case (Some m)
        then have "Writer_Write ?w2 (drop n p) = (Some m, ?w2)"
          by (intro Writer_Write_sticky) simp
        with rec show ?thesis by simp
      qed simp
      with fw have n: "n = length p" and fd: "fdata f' = fdata (wal_file w) @ p"
        using file_Write_ok by blast+
      from "1.IH"(1)[OF guard True fw[symmetric] refl rec]
      have "stream w' = stream ?w2 @ drop n p" and "werr (wal_writer w') = None" by simp_all
      with n fd True show ?thesis by (simp add: stream_def)
    next
      case False
      define n where "n = Available (wal_writer w)"
      define w1 where "w1 = w\<lparr>wal_writer := (wal_writer w)\<lparr>buf := buf (wal_writer w) @ take n p\<rparr>\<rparr>"
      obtain e2 w2 where fl: "Writer_Flush w1 = (e2, w2)" by (metis surj_pair)
      from "1.prems" guard False fl have rec: "Writer_Write w2 (drop n p) = (None, w')"
        by (simp add: Writer_Write.simps[of w p] n_def w1_def Let_def)
      have e2: "e2 = None"
      proof (cases e2)
        case (Some m)
        with fl have "werr (wal_writer w2) = Some m" by (simp add: Writer_Flush_err)
        then have "Writer_Write w2 (drop n p) = (Some m, w2)" by (rule Writer_Write_sticky)
        with rec show ?thesis by simp
      qed simp
      with fl have s2: "stream w2 = stream w1" using Writer_Flush_ok[of w1 w2]
        by (simp add: stream_def)
      from "1.IH"(2)[OF guard False n_def w1_def, of w'] rec fl
      have "stream w' = stream w2 @ drop n p" and "werr (wal_writer w') = None" by simp_all
      with s2 show ?thesis by (simp add: stream_def w1_def)
    qed
  qed
qed

lemma Writer_Flush_no_faults:
  "no_faults w \<Longrightarrow> \<exists>w'. Writer_Flush w = (None, w') \<and> no_faults w'"
  by (auto simp: Writer_Flush_def file_Write_def no_faults_def
      split: list.splits option.splits prod.splits if_splits)

lemma Writer_Write_no_faults:
  "no_faults w \<Longrightarrow> \<exists>w'. Writer_Write w p = (None, w') \<and> no_faults w'"
proof (induction w p rule: Writer_Write.induct)
  case (1 w p)
  show ?case
  proof (cases "length p > Available (wal_writer w) \<and> werr (wal_writer w) = None")
    case False
    with "1.prems" show ?thesis
      by (auto simp: Writer_Write.simps[of w p] no_faults_def split: option.splits)
  next
    case guard: True
    show ?thesis
    proof (cases "buf (wal_writer w) = []")
      case True
      obtain n e f' where fw: "file_Write (wal_file w) p = ((n, e), f')"
        by (metis surj_pair)
      let ?w2 = "w\<lparr>wal_file := f', wal_writer := (wal_writer w)\<lparr>werr := e\<rparr>\<rparr>"
      from fw "1.prems" have "no_faults ?w2"
        by (auto simp: file_Write_def no_faults_def)
      from "1.IH"(1)[OF guard True fw[symmetric] refl this] guard True fw
      show ?thesis by (simp add: Writer_Write.simps[of w p])
    next
      case False
      define n where "n = Available (wal_writer w)"
      define w1 where "w1 = w\<lparr>wal_writer := (wal_writer w)\<lparr>buf := buf (wal_writer w) @ take n p\<rparr>\<rparr>"
      from "1.prems" have "no_faults w1" by (simp add: w1_def no_faults_def)
      then obtain w2 where fl: "Writer_Flush w1 = (None, w2)" and nf: "no_faults w2"
        using Writer_Flush_no_faults by blast
      from "1.IH"(2)[OF guard False n_def w1_def] fl nf
      have "\<exists>w'. Writer_Write w2 (drop n p) = (None, w') \<and> no_faults w'" by simp
      with guard False fl show ?thesis
        by (simp add: Writer_Write.simps[of w p] n_def w1_def Let_def)
    qed
  qed
qed

section \<open>What a successful write leaves in the log\<close>

lemma flushBuffer_ok:
  "flushBuffer w = (None, w') \<Longrightarrow> stream w' = stream w \<and> werr (wal_writer w') = None"
  using Writer_Flush_ok[of w w']
  by (auto simp: flushBuffer_def stream_def split: prod.splits option.splits)

lemma write_args_ok:
  "write_args w ds = (None, w') \<Longrightarrow> stream w' = stream w @ concat (map (\<lambda>d. d @ [pipe]) ds)"
proof (induction ds arbitrary: w)
  case Nil
  then show ?case by simp
next
  case (Cons d ds)
  then obtain w1 where 1: "Writer_Write w (d @ [pipe]) = (None, w1)"
    and 2: "write_args w1 ds = (None, w')"
    by (auto split: prod.splits option.splits)
  from Cons.IH[OF 2] Writer_Write_ok[OF 1] show ?case by simp
qed

lemma WAL_Write_ok:
  assumes "WAL_Write w data = (None, w')"
  shows "stream w' = stream w @ concat (map (\<lambda>d. d @ [pipe]) data) @ [newline]"
proof -
  from assms obtain w1 w2 where
    1: "(if length data > Available (wal_writer w) then flushBuffer w else (None, w)) = (None, w1)"
    and 2: "write_args w1 data = (None, w2)"
    and 3: "Writer_Write w2 [newline] = (None, w')"
    by (auto simp: WAL_Write_def split: prod.splits option.splits)
  from 1 have "stream w1 = stream w"
    using flushBuffer_ok[of w w1] by (auto split: if_splits)
  with write_args_ok[OF 2] Writer_Write_ok[OF 3] show ?thesis by simp
qed

lemma flushBuffer_no_faults:
  "no_faults w \<Longrightarrow> \<exists>w'. flushBuffer w = (None, w') \<and> no_faults w'"
  using Writer_Flush_no_faults[of w] by (auto simp: flushBuffer_def)

lemma write_args_no_faults:
  "no_faults w \<Longrightarrow> \<exists>w'. write_args w ds = (None, w') \<and> no_faults w'"
proof (induction ds arbitrary: w)
  case Nil
  then show ?case by simp
next
  case (Cons d ds)
  from Writer_Write_no_faults[OF Cons.prems, of "d @ [pipe]"]
  obtain w1 where 1: "Writer_Write w (d @ [pipe]) = (None, w1)" and 2: "no_faults w1" by blast
  from Cons.IH[OF 2] 1 show ?case by simp
qed

lemma WAL_Write_no_faults:
  assumes "no_faults w"
  shows "\<exists>w'. WAL_Write w data = (None, w') \<and> no_faults w'"
proof -
  have "\<exists>w1. (if length data > Available (wal_writer w) then flushBuffer w else (None, w)) = (None, w1)
          \<and> no_faults w1"
    using assms flushBuffer_no_faults[OF assms] by auto
  then obtain w1 where
    1: "(if length data > Available (wal_writer w) then flushBuffer w else (None, w)) = (None, w1)"
    and n1: "no_faults w1" by blast
  from write_args_no_faults[OF n1, of data]
  obtain w2 where 2: "write_args w1 data = (None, w2)" and n2: "no_faults w2" by blast
  from Writer_Write_no_faults[OF n2, of "[newline]"]
  obtain w3 where 3: "Writer_Write w2 [newline] = (None, w3)" and n3: "no_faults w3" by blast
  from 1 2 3 n3 show ?thesis by (simp add: WAL_Write_def)
qed

lemma Persist_no_faults:
  assumes "no_faults w"
  shows "\<exists>w'. Persist w = (None, w') \<and> no_faults w' \<and> fdata (wal_file w') = stream w
           \<and> durable (wal_file w') = stream w \<and> buf (wal_writer w') = []"
proof -
  from Writer_Flush_no_faults[OF assms]
  obtain w1 where 1: "Writer_Flush w = (None, w1)" and n1: "no_faults w1" by blast
  from Writer_Flush_ok[OF 1] have "fdata (wal_file w1) = stream w" by simp
  with 1 n1 show ?thesis
    by (auto simp: Persist_def file_Sync_def no_faults_def)
qed

section \<open>Parsing the log\<close>

lemma read_cmds_append: "read_cmds (xs @ ys) = read_cmds xs @ read_cmds ys"
  by (induction xs) (auto simp: Let_def)

lemma read_cmds_line: "read_cmds [l] = line_entries l"
proof (cases "l = []")
  case True
  then show ?thesis by (simp add: line_entries_def strings_Split_def)
next
  case False
  have "strings_Split l pipe \<noteq> []" by (rule strings_Split_nonempty)
  with False show ?thesis
    by (auto simp: line_entries_def Let_def split: list.splits)
qed

lemma read_cmds_Cons: "read_cmds (l # ls) = line_entries l @ read_cmds ls"
proof -
  have "read_cmds ([l] @ ls) = read_cmds [l] @ read_cmds ls" by (rule read_cmds_append)
  then show ?thesis by (simp only: append_Cons append_Nil read_cmds_line)
qed

lemma read_cmds_line_entries: "read_cmds cmds = concat (map line_entries cmds)"
proof (induction cmds)
  case Nil
  then show ?case by simp
next
  case (Cons l ls)
  then show ?case by (simp add: read_cmds_Cons del: read_cmds.simps)
qed

lemma replay_cmds_append:
  "replay_cmds put del t (xs @ ys) = replay_cmds put del (replay_cmds put del t xs) ys"
  by (induction xs arbitrary: t) (auto simp: Let_def)

lemma replay_cmds_read_cmds:
  "replay_cmds put del t cmds = foldl (apply_entry put del) t (read_cmds cmds)"
  by (induction cmds arbitrary: t) (auto simp: Let_def apply_entry_def)

lemma op_line_simps:
  "op_line (PutOp k v) = ''+|'' @ k @ ''|'' @ v @ ''|''"
  "op_line (DeleteOp k) = ''-|'' @ k @ ''|''"
  by (simp_all add: op_line_def)

lemma line_entries_op_line: "op_plain m \<Longrightarrow> line_entries (op_line m) = [op_entry m]"
proof (cases m)
  case (PutOp k v)
  assume "op_plain m"
  with PutOp have "strings_Split (''+|'' @ k @ ''|'' @ v @ ''|'') pipe = [''+'', k, v, []]"
    by (intro strings_Split_put_line) (simp_all add: plain_def)
  with PutOp show ?thesis by (simp add: line_entries_def op_line_simps)
next
  case (DeleteOp k)
  assume "op_plain m"
  with DeleteOp have "strings_Split (''-|'' @ k @ ''|'') pipe = [''-'', k, []]"
    by (intro strings_Split_del_line) (simp_all add: plain_def)
  with DeleteOp show ?thesis by (simp add: line_entries_def op_line_simps)
qed

lemma op_line_no_newline: "op_plain m \<Longrightarrow> newline \<notin> set (op_line m)"
  by (cases m) (auto simp: op_line_simps plain_def)

lemma read_cmds_records:
  "\<forall>m \<in> set ms. op_plain m \<Longrightarrow>
     read_cmds (strings_Split (concat (map (\<lambda>m. op_line m @ [newline]) ms)) newline)
       = map op_entry ms"
proof (induction ms)
  case Nil
  then show ?case by (simp add: strings_Split_def)
next
  case (Cons m ms)
  then have pm: "op_plain m" by simp
  have "strings_Split (concat (map (\<lambda>m. op_line m @ [newline]) (m # ms))) newline
        = strings_Split (op_line m) newline
          @ strings_Split (concat (map (\<lambda>m. op_line m @ [newline]) ms)) newline"
    using strings_Split_append_sep[of "op_line m" newline] by simp
  also have "strings_Split (op_line m) newline = [op_line m]"
    using op_line_no_newline[OF pm] by (rule strings_Split_no_sep)
  finally show ?case
    using Cons pm by (simp add: read_cmds_Cons line_entries_op_line del: read_cmds.simps)
qed

lemma read_cmds_after_complete_lines:
  assumes "d = [] \<or> last d = newline"
  shows "read_cmds (strings_Split (d @ x) newline)
         = read_cmds (strings_Split d newline) @ read_cmds (strings_Split x newline)"
proof (cases "d = []")
  case True
  then show ?thesis by (simp add: strings_Split_def)
next
  case False
  with assms obtain d' where d: "d = d' @ [newline]"
    by (metis append_butlast_last_id)
  have "strings_Split (d @ x) newline = strings_Split d' newline @ strings_Split x newline"
    using strings_Split_append_sep[of d' newline x] by (simp add: d)
  moreover have "strings_Split d newline = strings_Split d' newline @ [[]]"
    using strings_Split_append_sep[of d' newline "[]"] by (simp add: d strings_Split_def)
  ultimately show ?thesis by (simp add: read_cmds_append)
qed

lemma write_ops_no_faults:
  "no_faults w \<Longrightarrow>
     \<exists>w'. write_ops w ms = (None, w') \<and> no_faults w'
        \<and> stream w' = stream w @ concat (map (\<lambda>m. op_line m @ [newline]) ms)"
proof (induction ms arbitrary: w)
  case Nil
  then show ?case by simp
next
  case (Cons m ms)
  from WAL_Write_no_faults[OF Cons.prems, of "op_args m"]
  obtain w1 where 1: "WAL_Write w (op_args m) = (None, w1)" and n1: "no_faults w1" by blast
  from WAL_Write_ok[OF 1] have s1: "stream w1 = stream w @ op_line m @ [newline]"
    by (simp add: op_line_def)
  from Cons.IH[OF n1] obtain w' where "write_ops w1 ms = (None, w')" "no_faults w'"
    "stream w' = stream w1 @ concat (map (\<lambda>m. op_line m @ [newline]) ms)" by blast
  with 1 s1 show ?case by simp
qed

section \<open>The record format of the log\<close>

text \<open>
  C5. A \<open>WAL.Write\<close> that returns no error has appended to the log exactly the bytes
  \<open>+|key|value|\<close> and a newline for a Put and \<open>-|key|\<close> and a newline for a Delete,
  a delimiter after every argument; without I/O faults it returns no error. For a key and
  a value free of pipe and newline these bytes are one newline-terminated line, and
  splitting the line on the pipe gives 4 fields for a Put and 3 for a Delete, the last
  one empty.
\<close>

theorem WAL_Write_record_format:
  "(WAL_Write w [''+'', k, v] = (None, w') \<longrightarrow>
      stream w' = stream w @ ''+|'' @ k @ ''|'' @ v @ ''|'' @ [newline])
   \<and> (WAL_Write w [''-'', k] = (None, w'') \<longrightarrow>
      stream w'' = stream w @ ''-|'' @ k @ ''|'' @ [newline])
   \<and> (no_faults w \<longrightarrow>
      fst (WAL_Write w [''+'', k, v]) = None \<and> fst (WAL_Write w [''-'', k]) = None)
   \<and> (plain k \<and> plain v \<longrightarrow>
      strings_Split (''+|'' @ k @ ''|'' @ v @ ''|'' @ [newline]) newline
        = [''+|'' @ k @ ''|'' @ v @ ''|'', []]
      \<and> strings_Split (''+|'' @ k @ ''|'' @ v @ ''|'') pipe = [''+'', k, v, []]
      \<and> strings_Split (''-|'' @ k @ ''|'' @ [newline]) newline = [''-|'' @ k @ ''|'', []]
      \<and> strings_Split (''-|'' @ k @ ''|'') pipe = [''-'', k, []])"
proof (intro conjI impI)
  assume "WAL_Write w [''+'', k, v] = (None, w')"
  from WAL_Write_ok[OF this]
  show "stream w' = stream w @ ''+|'' @ k @ ''|'' @ v @ ''|'' @ [newline]" by simp
next
  assume "WAL_Write w [''-'', k] = (None, w'')"
  from WAL_Write_ok[OF this]
  show "stream w'' = stream w @ ''-|'' @ k @ ''|'' @ [newline]" by simp
next
  assume "no_faults w"
  from WAL_Write_no_faults[OF this, of "[''+'', k, v]"]
  show "fst (WAL_Write w [''+'', k, v]) = None" by auto
next
  assume "no_faults w"
  from WAL_Write_no_faults[OF this, of "[''-'', k]"]
  show "fst (WAL_Write w [''-'', k]) = None" by auto
next
  assume kv: "plain k \<and> plain v"
  then have "newline \<notin> set (''+|'' @ k @ ''|'' @ v @ ''|'')" by (simp add: plain_def)
  then have "strings_Split (''+|'' @ k @ ''|'' @ v @ ''|'') newline = [''+|'' @ k @ ''|'' @ v @ ''|'']"
    by (rule strings_Split_no_sep)
  with strings_Split_append_sep[of "''+|'' @ k @ ''|'' @ v @ ''|''" newline "[]"]
  show "strings_Split (''+|'' @ k @ ''|'' @ v @ ''|'' @ [newline]) newline
        = [''+|'' @ k @ ''|'' @ v @ ''|'', []]"
    by (simp add: strings_Split_no_sep[of newline "[]"])
next
  assume "plain k \<and> plain v"
  then show "strings_Split (''+|'' @ k @ ''|'' @ v @ ''|'') pipe = [''+'', k, v, []]"
    by (intro strings_Split_put_line) (simp_all add: plain_def)
next
  assume kv: "plain k \<and> plain v"
  then have "newline \<notin> set (''-|'' @ k @ ''|'')" by (simp add: plain_def)
  then have "strings_Split (''-|'' @ k @ ''|'') newline = [''-|'' @ k @ ''|'']"
    by (rule strings_Split_no_sep)
  with strings_Split_append_sep[of "''-|'' @ k @ ''|''" newline "[]"]
  show "strings_Split (''-|'' @ k @ ''|'' @ [newline]) newline = [''-|'' @ k @ ''|'', []]"
    by (simp add: strings_Split_no_sep[of newline "[]"])
next
  assume "plain k \<and> plain v"
  then show "strings_Split (''-|'' @ k @ ''|'') pipe = [''-'', k, []]"
    by (intro strings_Split_del_line) (simp_all add: plain_def)
qed

theorem WAL_Write_record_format_witness:
  "no_faults (OpenOrCreateWAL created_file) \<and> plain ''foo'' \<and> plain ''bar''
   \<and> stream (snd (WAL_Write (OpenOrCreateWAL created_file) [''+'', ''foo'', ''bar'']))
       = ''+|foo|bar|'' @ [newline]
   \<and> stream (snd (WAL_Write (OpenOrCreateWAL created_file) [''-'', ''foo'']))
       = ''-|foo|'' @ [newline]
   \<and> strings_Split ''+|foo|bar|'' pipe = [''+'', ''foo'', ''bar'', []]
   \<and> strings_Split ''-|foo|'' pipe = [''-'', ''foo'', []]"
proof -
  let ?w = "OpenOrCreateWAL created_file"
  let ?p = "WAL_Write ?w [''+'', ''foo'', ''bar'']"
  let ?d = "WAL_Write ?w [''-'', ''foo'']"
  note T = WAL_Write_record_format[of ?w "''foo''" "''bar''" "snd ?p" "snd ?d"]
  have nf: "no_faults ?w"
    by (simp add: no_faults_def OpenOrCreateWAL_def created_file_def)
  have pl: "plain ''foo'' \<and> plain ''bar''" by (simp add: plain_def)
  have s0: "stream ?w = []" by (simp add: stream_def OpenOrCreateWAL_def created_file_def)
  from T nf have "fst ?p = None" "fst ?d = None" by blast+
  then have "?p = (None, snd ?p)" "?d = (None, snd ?d)" by (simp_all add: prod_eq_iff)
  with T s0 have "stream (snd ?p) = ''+|foo|bar|'' @ [newline]"
    "stream (snd ?d) = ''-|foo|'' @ [newline]" by simp_all
  moreover from T pl have "strings_Split ''+|foo|bar|'' pipe = [''+'', ''foo'', ''bar'', []]"
    "strings_Split ''-|foo|'' pipe = [''-'', ''foo'', []]" by simp_all
  ultimately show ?thesis using nf pl by simp
qed

section \<open>Replay\<close>

text \<open>
  C6. \<open>ReadEntries\<close> and \<open>InitDB\<close> take from the file exactly the entries that the
  spec's reading of a line gives: a line stands for an entry if and only if it splits
  into 4 fields of which the first is \<open>+\<close> (a Put of the second and third field) or
  into 3 fields of which the first is \<open>-\<close> (a Delete of the second); every other line,
  the empty one included, contributes nothing. \<open>InitDB\<close> applies these entries in order
  and returns an error exactly when opening or reading the file fails.
\<close>

theorem replay_accepts_exactly_the_records:
  "(line_entries l \<noteq> [] \<longleftrightarrow>
      (\<exists>k v t. strings_Split l pipe = [''+'', k, v, t])
      \<or> (\<exists>k t. strings_Split l pipe = [''-'', k, t]))
   \<and> (strings_Split l pipe = [''+'', k, v, t] \<longrightarrow>
        line_entries l = [\<lparr>Key = k, Value = v, Delete = False\<rparr>])
   \<and> (strings_Split l pipe = [''-'', k, t] \<longrightarrow>
        line_entries l = [\<lparr>Key = k, Value = [], Delete = True\<rparr>])
   \<and> line_entries [] = []
   \<and> (openfault (wal_file w) = None \<and> readfault (wal_file w) = None \<longrightarrow>
        ReadEntries w
          = Inr (concat (map line_entries (strings_Split (fdata (wal_file w)) newline)))
        \<and> InitDB put del w tr
          = (None, foldl (apply_entry put del) tr
                     (concat (map line_entries (strings_Split (fdata (wal_file w)) newline)))))
   \<and> (fst (InitDB put del w tr) \<noteq> None \<longleftrightarrow>
        openfault (wal_file w) \<noteq> None \<or> readfault (wal_file w) \<noteq> None)"
proof (intro conjI impI)
  show "line_entries l \<noteq> [] \<longleftrightarrow>
      (\<exists>k v t. strings_Split l pipe = [''+'', k, v, t])
      \<or> (\<exists>k t. strings_Split l pipe = [''-'', k, t])"
    by (auto simp: line_entries_def split: list.splits)
next
  assume "strings_Split l pipe = [''+'', k, v, t]"
  then show "line_entries l = [\<lparr>Key = k, Value = v, Delete = False\<rparr>]"
    by (simp add: line_entries_def)
next
  assume "strings_Split l pipe = [''-'', k, t]"
  then show "line_entries l = [\<lparr>Key = k, Value = [], Delete = True\<rparr>]"
    by (simp add: line_entries_def)
next
  show "line_entries [] = []" by (simp add: line_entries_def strings_Split_def)
next
  assume "openfault (wal_file w) = None \<and> readfault (wal_file w) = None"
  then show "ReadEntries w
      = Inr (concat (map line_entries (strings_Split (fdata (wal_file w)) newline)))"
    by (simp add: ReadEntries_def read_cmds_line_entries)
next
  assume "openfault (wal_file w) = None \<and> readfault (wal_file w) = None"
  then show "InitDB put del w tr
      = (None, foldl (apply_entry put del) tr
                 (concat (map line_entries (strings_Split (fdata (wal_file w)) newline))))"
    by (simp add: InitDB_def replay_cmds_read_cmds read_cmds_line_entries)
next
  show "fst (InitDB put del w tr) \<noteq> None \<longleftrightarrow>
        openfault (wal_file w) \<noteq> None \<or> readfault (wal_file w) \<noteq> None"
    by (auto simp: InitDB_def split: option.splits)
qed

theorem replay_accepts_exactly_the_records_witness:
  "openfault (wal_file (OpenOrCreateWAL (created_file\<lparr>fdata :=
       ''+|a|1|'' @ [newline] @ [newline] @ ''bogus'' @ [newline] @ ''*|x|'' @ [newline]
       @ ''+|a|'' @ [newline] @ ''-|a|'' @ [newline] @ ''+|b|2|'' @ [newline]\<rparr>))) = None
   \<and> readfault (wal_file (OpenOrCreateWAL (created_file\<lparr>fdata :=
       ''+|a|1|'' @ [newline] @ [newline] @ ''bogus'' @ [newline] @ ''*|x|'' @ [newline]
       @ ''+|a|'' @ [newline] @ ''-|a|'' @ [newline] @ ''+|b|2|'' @ [newline]\<rparr>))) = None
   \<and> strings_Split ''+|a|1|'' pipe = [''+'', ''a'', ''1'', []]
   \<and> line_entries ''+|a|1|'' = [\<lparr>Key = ''a'', Value = ''1'', Delete = False\<rparr>]
   \<and> strings_Split ''-|a|'' pipe = [''-'', ''a'', []]
   \<and> line_entries ''-|a|'' = [\<lparr>Key = ''a'', Value = [], Delete = True\<rparr>]
   \<and> ReadEntries (OpenOrCreateWAL (created_file\<lparr>fdata :=
       ''+|a|1|'' @ [newline] @ [newline] @ ''bogus'' @ [newline] @ ''*|x|'' @ [newline]
       @ ''+|a|'' @ [newline] @ ''-|a|'' @ [newline] @ ''+|b|2|'' @ [newline]\<rparr>))
     = Inr [\<lparr>Key = ''a'', Value = ''1'', Delete = False\<rparr>,
            \<lparr>Key = ''a'', Value = [], Delete = True\<rparr>,
            \<lparr>Key = ''b'', Value = ''2'', Delete = False\<rparr>]
   \<and> InitDB (\<lambda>t k v. t @ [(k, Some v)]) (\<lambda>t k. t @ [(k, None)])
        (OpenOrCreateWAL (created_file\<lparr>fdata :=
       ''+|a|1|'' @ [newline] @ [newline] @ ''bogus'' @ [newline] @ ''*|x|'' @ [newline]
       @ ''+|a|'' @ [newline] @ ''-|a|'' @ [newline] @ ''+|b|2|'' @ [newline]\<rparr>)) []
     = (None, [(''a'', Some ''1''), (''a'', None), (''b'', Some ''2'')])"
proof -
  let ?d = "''+|a|1|'' @ [newline] @ [newline] @ ''bogus'' @ [newline] @ ''*|x|'' @ [newline]
       @ ''+|a|'' @ [newline] @ ''-|a|'' @ [newline] @ ''+|b|2|'' @ [newline]"
  let ?w = "OpenOrCreateWAL (created_file\<lparr>fdata := ?d\<rparr>)"
  let ?put = "\<lambda>t k v. t @ [(k, Some v)] :: (string \<times> string option) list"
  let ?del = "\<lambda>t k. t @ [(k, None)] :: (string \<times> string option) list"
  have f: "openfault (wal_file ?w) = None \<and> readfault (wal_file ?w) = None"
    "fdata (wal_file ?w) = ?d"
    by (simp_all add: OpenOrCreateWAL_def created_file_def)
  have p: "strings_Split ''+|a|1|'' pipe = [''+'', ''a'', ''1'', []]"
    and d: "strings_Split ''-|a|'' pipe = [''-'', ''a'', []]"
    by (simp_all add: strings_Split_def)
  have e: "concat (map line_entries (strings_Split ?d newline))
           = [\<lparr>Key = ''a'', Value = ''1'', Delete = False\<rparr>,
              \<lparr>Key = ''a'', Value = [], Delete = True\<rparr>,
              \<lparr>Key = ''b'', Value = ''2'', Delete = False\<rparr>]"
    by (simp add: strings_Split_def line_entries_def)
  from replay_accepts_exactly_the_records[of "''+|a|1|''" "''a''" "''1''" "[]" ?w ?put ?del "[]"] p
  have 1: "line_entries ''+|a|1|'' = [\<lparr>Key = ''a'', Value = ''1'', Delete = False\<rparr>]"
    by blast
  from replay_accepts_exactly_the_records[of "''-|a|''" "''a''" "''1''" "[]" ?w ?put ?del "[]"] d
  have 2: "line_entries ''-|a|'' = [\<lparr>Key = ''a'', Value = [], Delete = True\<rparr>]"
    by blast
  from replay_accepts_exactly_the_records[of "''-|a|''" "''a''" "''1''" "[]" ?w ?put ?del "[]"] f
  have 3: "ReadEntries ?w = Inr (concat (map line_entries (strings_Split ?d newline)))"
    and 4: "InitDB ?put ?del ?w []
      = (None, foldl (apply_entry ?put ?del) [] (concat (map line_entries (strings_Split ?d newline))))"
    by simp_all
  have "foldl (apply_entry ?put ?del) []
          [\<lparr>Key = ''a'', Value = ''1'', Delete = False\<rparr>,
           \<lparr>Key = ''a'', Value = [], Delete = True\<rparr>,
           \<lparr>Key = ''b'', Value = ''2'', Delete = False\<rparr>]
        = [(''a'', Some ''1''), (''a'', None), (''b'', Some ''2'')]"
    by (simp add: apply_entry_def)
  with 4[unfolded e] have 5: "InitDB ?put ?del ?w []
      = (None, [(''a'', Some ''1''), (''a'', None), (''b'', Some ''2'')])"
    by (simp only:)
  note 6 = 3[unfolded e]
  from f(1) p d 1 2 5 6 show ?thesis by blast
qed

text \<open>
  C7. Round trip. On a WAL without I/O faults whose log is empty or ends with a newline,
  writing a sequence of Puts and Deletes whose keys and values hold no pipe and no
  newline, in order, with \<open>WAL.Write\<close>, then \<open>Persist\<close>, then \<open>ReadEntries\<close>: every
  step succeeds, and the entries read are those the log held before followed by exactly
  the entries of the sequence, in order. On an empty log they are exactly the entries of
  the sequence. (Keys and values need not be non-empty for this.)
\<close>

theorem write_then_read_roundtrip:
  assumes "no_faults w" and "\<forall>m \<in> set ms. op_plain m"
    and "stream w = [] \<or> last (stream w) = newline"
  shows "\<exists>w1 w2. write_ops w ms = (None, w1) \<and> Persist w1 = (None, w2)
           \<and> ReadEntries w2
               = Inr (read_cmds (strings_Split (stream w) newline) @ map op_entry ms)
           \<and> (stream w = [] \<longrightarrow> ReadEntries w2 = Inr (map op_entry ms))"
proof -
  from write_ops_no_faults[OF assms(1), of ms]
  obtain w1 where 1: "write_ops w ms = (None, w1)" and n1: "no_faults w1"
    and s1: "stream w1 = stream w @ concat (map (\<lambda>m. op_line m @ [newline]) ms)" by blast
  from Persist_no_faults[OF n1]
  obtain w2 where 2: "Persist w1 = (None, w2)" and n2: "no_faults w2"
    and f2: "fdata (wal_file w2) = stream w1" by blast
  have "read_cmds (strings_Split (stream w1) newline)
        = read_cmds (strings_Split (stream w) newline) @ map op_entry ms"
    using read_cmds_after_complete_lines[OF assms(3)] read_cmds_records[OF assms(2)]
    by (simp add: s1)
  with n2 f2 have 3: "ReadEntries w2
      = Inr (read_cmds (strings_Split (stream w) newline) @ map op_entry ms)"
    by (simp add: ReadEntries_def no_faults_def)
  then have "stream w = [] \<longrightarrow> ReadEntries w2 = Inr (map op_entry ms)"
    by (simp add: strings_Split_def)
  with 1 2 3 show ?thesis by blast
qed

theorem write_then_read_roundtrip_witness:
  "no_faults (OpenOrCreateWAL created_file)
   \<and> op_plain (PutOp ''a'' ''1'') \<and> op_plain (DeleteOp ''a'') \<and> op_plain (PutOp ''b'' ''2'')
   \<and> stream (OpenOrCreateWAL created_file) = []
   \<and> (\<exists>w1 w2.
        write_ops (OpenOrCreateWAL created_file) [PutOp ''a'' ''1'', DeleteOp ''a'', PutOp ''b'' ''2'']
          = (None, w1)
        \<and> Persist w1 = (None, w2)
        \<and> ReadEntries w2 = Inr [\<lparr>Key = ''a'', Value = ''1'', Delete = False\<rparr>,
                                 \<lparr>Key = ''a'', Value = [], Delete = True\<rparr>,
                                 \<lparr>Key = ''b'', Value = ''2'', Delete = False\<rparr>])"
proof -
  let ?w = "OpenOrCreateWAL created_file"
  let ?ms = "[PutOp ''a'' ''1'', DeleteOp ''a'', PutOp ''b'' ''2'']"
  have nf: "no_faults ?w"
    by (simp add: no_faults_def OpenOrCreateWAL_def created_file_def)
  have pl: "\<forall>m \<in> set ?ms. op_plain m" by (simp add: plain_def)
  have s0: "stream ?w = []" by (simp add: stream_def OpenOrCreateWAL_def created_file_def)
  from write_then_read_roundtrip[OF nf pl] s0
  obtain w1 w2 where "write_ops ?w ?ms = (None, w1)" "Persist w1 = (None, w2)"
    "ReadEntries w2 = Inr (map op_entry ?ms)" by auto
  then have "\<exists>w1 w2. write_ops ?w ?ms = (None, w1) \<and> Persist w1 = (None, w2)
      \<and> ReadEntries w2 = Inr [\<lparr>Key = ''a'', Value = ''1'', Delete = False\<rparr>,
                               \<lparr>Key = ''a'', Value = [], Delete = True\<rparr>,
                               \<lparr>Key = ''b'', Value = ''2'', Delete = False\<rparr>]"
    by auto
  with nf pl s0 show ?thesis by simp
qed

section \<open>Fields of a command line\<close>

lemma white_space_nonempty: "e \<in> set white_space \<Longrightarrow> e \<noteq> []"
  by (auto simp: white_space_def)

lemma white_space_tail: "e \<in> set white_space \<Longrightarrow> CHR '' '' \<notin> set (tl e)"
  by (auto simp: white_space_def)

lemma space_width_zero:
  "space_width s = 0 \<longleftrightarrow> (\<forall>e \<in> set white_space. take (length e) s \<noteq> e)"
proof
  assume "space_width s = 0"
  show "\<forall>e \<in> set white_space. take (length e) s \<noteq> e"
  proof (cases "find (\<lambda>e. take (length e) s = e) white_space")
    case None
    then show ?thesis by (simp add: find_None_iff)
  next
    case (Some e)
    then have "e \<in> set white_space" by (auto simp: find_Some_iff)
    with Some \<open>space_width s = 0\<close> white_space_nonempty[of e] show ?thesis
      by (simp add: space_width_def)
  qed
next
  assume "\<forall>e \<in> set white_space. take (length e) s \<noteq> e"
  then have "find (\<lambda>e. take (length e) s = e) white_space = None"
    by (simp add: find_None_iff)
  then show "space_width s = 0" by (simp add: space_width_def)
qed

lemma space_width_space [simp]: "space_width (CHR '' '' # s) = 1"
  by (simp add: space_width_def white_space_def)

lemma space_width_newline [simp]: "space_width (newline # s) = 1"
  by (simp add: space_width_def white_space_def)

lemma space_width_CR [simp]: "space_width (CHR 0x0D # s) = 1"
  by (simp add: space_width_def white_space_def)

lemma space_width_Nil [simp]: "space_width [] = 0"
  by (simp add: space_width_def white_space_def)

lemma space_width_before_space:
  assumes "x \<noteq> []" and "space_width x = 0" and "s = [] \<or> hd s = CHR '' ''"
  shows "space_width (x @ s) = 0"
proof (cases "s = []")
  case True
  with assms(2) show ?thesis by simp
next
  case False
  with assms(3) obtain s' where s: "s = CHR '' '' # s'" by (cases s) auto
  show ?thesis
    unfolding space_width_zero
  proof (intro ballI notI)
    fix e
    assume e: "e \<in> set white_space" and t: "take (length e) (x @ s) = e"
    from assms(2) e have n: "take (length e) x \<noteq> e" by (simp add: space_width_zero)
    show False
    proof (cases "length e \<le> length x")
      case True
      with t n show ?thesis by simp
    next
      case False
      with t s have "e = x @ CHR '' '' # take (length e - length x - 1) s'"
        by (cases "length e - length x") (auto simp: take_Cons')
      then obtain r where "e = x @ CHR '' '' # r" by blast
      with assms(1) have "CHR '' '' \<in> set (tl e)" by (cases x) auto
      with white_space_tail[OF e] show ?thesis by simp
    qed
  qed
qed

lemma fields_from_word:
  assumes "no_space a" and "s = [] \<or> hd s = CHR '' ''"
  shows "fields_from cur 0 (a @ s) = fields_from (cur @ a) 0 s"
  using assms(1)
proof (induction a arbitrary: cur)
  case Nil
  then show ?case by simp
next
  case (Cons c a)
  then have "space_width (c # a) = 0" and na: "no_space a" by simp_all
  with assms(2) have "space_width ((c # a) @ s) = 0"
    by (intro space_width_before_space) simp_all
  with Cons.IH[OF na, of "cur @ [c]"] show ?case by simp
qed

lemma fields_from_word_end: "token a \<Longrightarrow> fields_from [] 0 a = [a]"
  using fields_from_word[of a "[]" "[]"] by (simp add: token_def)

lemma fields_from_word_space:
  "token a \<Longrightarrow> fields_from [] 0 (a @ CHR '' '' # s) = a # fields_from [] 0 s"
  using fields_from_word[of a "CHR '' '' # s" "[]"] by (simp add: token_def)

lemma token_PUT: "token ''PUT''" and token_GET: "token ''GET''"
  by (simp_all add: token_def space_width_def white_space_def)

lemma strings_Fields_put:
  assumes "token k" "token v"
  shows "strings_Fields (''PUT '' @ k @ '' '' @ v) = [''PUT'', k, v]"
  using fields_from_word_space[OF token_PUT, of "k @ '' '' @ v"]
    fields_from_word_space[OF assms(1), of v] fields_from_word_end[OF assms(2)]
  by (simp add: strings_Fields_def)

lemma strings_Fields_get:
  assumes "token k"
  shows "strings_Fields (''GET '' @ k) = [''GET'', k]"
  using fields_from_word_space[OF token_GET, of k] fields_from_word_end[OF assms]
  by (simp add: strings_Fields_def)

lemma space_width_zero_head: "space_width (c # cs) = 0 \<Longrightarrow> c \<noteq> newline \<and> c \<noteq> CHR 0x0D"
  by (cases "c = newline"; cases "c = CHR 0x0D") auto

lemma fields_from_no_newline:
  "newline \<notin> set cur \<Longrightarrow> \<forall>f \<in> set (fields_from cur skip s). newline \<notin> set f"
proof (induction s arbitrary: cur skip)
  case Nil
  then show ?case by simp
next
  case (Cons c s)
  show ?case
  proof (cases "0 < skip")
    case True
    with Cons show ?thesis by simp
  next
    case False
    show ?thesis
    proof (cases "0 < space_width (c # s)")
      case True
      with False Cons.prems Cons.IH[of "[]"] show ?thesis by simp
    next
      case w: False
      then have "c \<noteq> newline" using space_width_zero_head[of c s] by simp
      with Cons.prems have "newline \<notin> set (cur @ [c])" by simp
      from Cons.IH[OF this] False w show ?thesis by simp
    qed
  qed
qed

lemma strings_Fields_no_newline: "f \<in> set (strings_Fields s) \<Longrightarrow> newline \<notin> set f"
  using fields_from_no_newline[of "[]" 0 s] by (simp add: strings_Fields_def)

lemma no_space_no_newline: "no_space k \<Longrightarrow> newline \<notin> set k \<and> CHR 0x0D \<notin> set k"
  by (induction k) (auto dest: space_width_zero_head)

lemma dropWhile_keeps: "xs \<noteq> [] \<Longrightarrow> \<not> P (hd xs) \<Longrightarrow> dropWhile P xs = xs"
  by (cases xs) simp_all

lemma strings_Trim_no_newline: "newline \<notin> set k \<Longrightarrow> strings_Trim k [newline] = k"
proof (cases "k = []")
  case True
  then show ?thesis by (simp add: strings_Trim_def)
next
  case False
  assume "newline \<notin> set k"
  with False have "hd k \<noteq> newline" and "last k \<noteq> newline"
    by (metis hd_in_set, metis last_in_set)
  with False have "dropWhile (\<lambda>c. c \<in> set [newline]) k = k"
    and "dropWhile (\<lambda>c. c \<in> set [newline]) (rev k) = rev k"
    by (simp_all add: dropWhile_keeps hd_rev)
  then show ?thesis by (simp add: strings_Trim_def)
qed


section \<open>The scanner\<close>

lemma takeWhile_line:
  "newline \<notin> set l \<Longrightarrow> takeWhile (\<lambda>c. c \<noteq> newline) (l @ newline # rest) = l"
  by (induction l) auto

lemma takeWhile_last_line:
  "newline \<notin> set l \<Longrightarrow> takeWhile (\<lambda>c. c \<noteq> newline) l = l"
  by (induction l) auto

lemma Scan_line:
  assumes "newline \<notin> set l" and "length l < MaxScanTokenSize"
  shows "Scan (l @ newline # rest) = Some (dropCR l, rest)"
  using assms by (simp add: Scan_def takeWhile_line)

lemma Scan_last_line:
  assumes "l \<noteq> []" and "newline \<notin> set l" and "length l < MaxScanTokenSize"
  shows "Scan l = Some (dropCR l, [])"
  using assms by (simp add: Scan_def takeWhile_last_line)

lemma Scan_too_long:
  assumes "newline \<notin> set l" and "MaxScanTokenSize \<le> length l"
  shows "Scan (l @ newline # rest) = None" and "Scan l = None"
  using assms by (auto simp: Scan_def takeWhile_line takeWhile_last_line)

lemma dropCR_id: "CHR 0x0D \<notin> set l \<Longrightarrow> dropCR l = l"
proof (cases "l = []")
  case True
  then show ?thesis by (simp add: dropCR_def)
next
  case False
  assume "CHR 0x0D \<notin> set l"
  with False last_in_set[OF False] have "last l \<noteq> CHR 0x0D" by metis
  then show ?thesis by (simp add: dropCR_def)
qed

lemma handleConnection_too_long:
  assumes "newline \<notin> set l" and "MaxScanTokenSize \<le> length l"
  shows "handleConnection ops db (l @ newline # rest) = (([], False), db)"
  using Scan_too_long(1)[OF assms, of rest]
  by (simp add: handleConnection.simps[of ops db "l @ newline # rest"])

lemma handleConnection_line:
  assumes "newline \<notin> set l" and "length l < MaxScanTokenSize"
  shows "handleConnection ops db (l @ newline # rest)
         = (case handleLine ops db (dropCR l) of
              (Panic m, db') \<Rightarrow> (([], True), db')
            | (Reply r, db') \<Rightarrow>
                (case handleConnection ops db' rest of
                   ((rs, panicked), db'') \<Rightarrow> ((r # rs, panicked), db'')))"
  using Scan_line[OF assms, of rest]
  by (simp add: handleConnection.simps[of ops db "l @ newline # rest"])

lemma handleConnection_Nil: "handleConnection ops db [] = (([], False), db)"
  by (simp add: handleConnection.simps[of ops db "[]"] Scan_def)


lemma fields_from_spaces: "fields_from [] 0 (replicate n (CHR '' '')) = []"
  by (induction n) simp_all

lemma no_space_replicate: "no_space (replicate n (CHR ''k''))"
  by (induction n) (auto simp: space_width_zero white_space_def)

lemma handleConnection_reply:
  assumes "newline \<notin> set l" and "length l < MaxScanTokenSize"
    and "handleLine ops db (dropCR l) = (Reply r, db')"
  shows "handleConnection ops db (l @ newline # rest)
         = ((r # fst (fst (handleConnection ops db' rest)),
             snd (fst (handleConnection ops db' rest))),
            snd (handleConnection ops db' rest))"
  using assms(3) by (simp add: handleConnection_line[OF assms(1,2)] case_prod_beta)

section \<open>The handlers\<close>

lemma handleLine_invalid:
  assumes "strings_Fields text = cmd"
    and "cmd = [] \<or> hd cmd \<notin> {''PUT'', ''GET'', ''DEL''}
         \<or> (hd cmd = ''PUT'' \<and> length cmd \<noteq> 3) \<or> (hd cmd = ''DEL'' \<and> length cmd \<noteq> 2)"
  shows "handleLine ops db text = (Reply (''Invalid command'' @ [newline]), db)"
proof (cases cmd)
  case Nil
  with assms(1) show ?thesis by (simp add: handleLine_def)
next
  case (Cons c cs)
  with assms show ?thesis by (auto simp: handleLine_def Let_def)
qed

text \<open>
  C9, as the claim states it, fails: a line of 65536 spaces has no token, yet the scanner
  of the connection cannot deliver a line of that length. The loop ends without a
  response, the connection is closed, and the command that follows is never handled.
\<close>

theorem long_invalid_line_counterexample:
  "strings_Fields (replicate 65536 (CHR '' '')) = []
   \<and> handleConnection LSM_ops engine0
        (replicate 65536 (CHR '' '') @ [newline] @ ''PUT foo bar'' @ [newline])
       = (([], False), engine0)"
proof -
  have "handleConnection LSM_ops engine0
        (replicate 65536 (CHR '' '') @ newline # (''PUT foo bar'' @ [newline]))
       = (([], False), engine0)"
    by (rule handleConnection_too_long) (simp_all add: MaxScanTokenSize_def)
  then show ?thesis by (simp add: strings_Fields_def fields_from_spaces)
qed

text \<open>
  C9, amended. For every input line over TCP that is shorter than 65536 bytes (the
  limit of the scanner): a line with no token, with a first token other than PUT, GET
  and DEL, with PUT and a number of tokens other than 3, or with DEL and a number of
  tokens other than 2 is answered \<open>Invalid command\<close>; the engine (tree and WAL) is
  unchanged, and the loop of the connection goes on with the input that follows from
  that same engine. The same holds for a last line that ends without a newline. A line
  of 65536 bytes or more, whatever it holds, gets no response: the loop ends there with
  the engine unchanged.
\<close>

theorem invalid_command_keeps_state_and_connection:
  assumes "newline \<notin> set l" and "length l < MaxScanTokenSize"
    and "strings_Fields (dropCR l) = cmd"
    and "cmd = [] \<or> hd cmd \<notin> {''PUT'', ''GET'', ''DEL''}
         \<or> (hd cmd = ''PUT'' \<and> length cmd \<noteq> 3) \<or> (hd cmd = ''DEL'' \<and> length cmd \<noteq> 2)"
  shows "handleLine ops db (dropCR l) = (Reply (''Invalid command'' @ [newline]), db)
    \<and> handleConnection ops db (l @ newline # rest)
        = (case handleConnection ops db rest of
             ((rs, panicked), db') \<Rightarrow> (((''Invalid command'' @ [newline]) # rs, panicked), db'))
    \<and> (l \<noteq> [] \<longrightarrow>
         handleConnection ops db l = (([''Invalid command'' @ [newline]], False), db))
    \<and> (newline \<notin> set long \<and> MaxScanTokenSize \<le> length long \<longrightarrow>
         handleConnection ops db (long @ newline # rest) = (([], False), db))"
proof -
  note h = handleLine_invalid[OF assms(3,4), of ops db]
  have t: "newline \<notin> set long \<and> MaxScanTokenSize \<le> length long \<longrightarrow>
         handleConnection ops db (long @ newline # rest) = (([], False), db)"
    using handleConnection_too_long[of long ops db rest] by simp
  have "l \<noteq> [] \<longrightarrow> handleConnection ops db l = (([''Invalid command'' @ [newline]], False), db)"
  proof
    assume "l \<noteq> []"
    from Scan_last_line[OF this assms(1,2)] h show
      "handleConnection ops db l = (([''Invalid command'' @ [newline]], False), db)"
      by (simp add: handleConnection.simps[of ops db l] handleConnection_Nil)
  qed
  with h t handleConnection_line[OF assms(1,2), of ops db rest] show ?thesis by simp
qed

theorem invalid_command_keeps_state_and_connection_witness:
  "newline \<notin> set ''PUT onlyonearg'' \<and> length ''PUT onlyonearg'' < MaxScanTokenSize
   \<and> strings_Fields (dropCR ''PUT onlyonearg'') = [''PUT'', ''onlyonearg'']
   \<and> hd [''PUT'', ''onlyonearg''] = ''PUT'' \<and> length [''PUT'', ''onlyonearg''] \<noteq> 3
   \<and> handleLine LSM_ops engine0 (dropCR ''PUT onlyonearg'')
       = (Reply (''Invalid command'' @ [newline]), engine0)
   \<and> fst (handleConnection LSM_ops engine0
            (''PUT onlyonearg'' @ [newline] @ ''PUT foo bar'' @ [newline] @ ''GET foo'' @ [newline]))
       = ([''Invalid command'' @ [newline], ''OK'' @ [newline], ''bar'' @ [newline]], False)
   \<and> handleConnection LSM_ops engine0 ''PUT onlyonearg''
       = (([''Invalid command'' @ [newline]], False), engine0)"
proof -
  let ?rest = "''PUT foo bar'' @ newline # (''GET foo'' @ newline # [])"
  have n: "newline \<notin> set ''PUT onlyonearg''" and l: "length ''PUT onlyonearg'' < MaxScanTokenSize"
    by (simp_all add: MaxScanTokenSize_def)
  have f: "strings_Fields (dropCR ''PUT onlyonearg'') = [''PUT'', ''onlyonearg'']"
    by (simp add: dropCR_def strings_Fields_def space_width_def white_space_def)
  have c: "[''PUT'', ''onlyonearg''] = [] \<or> hd [''PUT'', ''onlyonearg''] \<notin> {''PUT'', ''GET'', ''DEL''}
         \<or> (hd [''PUT'', ''onlyonearg''] = ''PUT'' \<and> length [''PUT'', ''onlyonearg''] \<noteq> 3)
         \<or> (hd [''PUT'', ''onlyonearg''] = ''DEL'' \<and> length [''PUT'', ''onlyonearg''] \<noteq> 2)"
    by simp
  note T = invalid_command_keeps_state_and_connection[OF n l f c, where ops = LSM_ops
      and db = engine0 and rest = ?rest and long = "[]"]
  let ?db1 = "snd (handleLine LSM_ops engine0 ''PUT foo bar'')"
  let ?db2 = "snd (handleLine LSM_ops ?db1 ''GET foo'')"
  have "fst (handleLine LSM_ops engine0 ''PUT foo bar'') = Reply (''OK'' @ [newline])"
    by code_simp
  then have h1: "handleLine LSM_ops engine0 (dropCR ''PUT foo bar'') = (Reply (''OK'' @ [newline]), ?db1)"
    by (simp add: dropCR_def prod_eq_iff)
  have "fst (handleLine LSM_ops ?db1 ''GET foo'') = Reply (''bar'' @ [newline])"
    by code_simp
  then have h2: "handleLine LSM_ops ?db1 (dropCR ''GET foo'') = (Reply (''bar'' @ [newline]), ?db2)"
    by (simp add: dropCR_def prod_eq_iff)
  have "handleConnection LSM_ops ?db1 (''GET foo'' @ newline # [])
        = (([''bar'' @ [newline]], False), ?db2)"
    using handleConnection_reply[OF _ _ h2, of "[]"]
    by (simp add: MaxScanTokenSize_def handleConnection_Nil)
  then have r: "handleConnection LSM_ops engine0 ?rest
        = (([''OK'' @ [newline], ''bar'' @ [newline]], False), ?db2)"
    using handleConnection_reply[OF _ _ h1, of "''GET foo'' @ newline # []"]
    by (simp add: MaxScanTokenSize_def)
  from T r have "fst (handleConnection LSM_ops engine0
            (''PUT onlyonearg'' @ [newline] @ ''PUT foo bar'' @ [newline] @ ''GET foo'' @ [newline]))
       = ([''Invalid command'' @ [newline], ''OK'' @ [newline], ''bar'' @ [newline]], False)"
    by simp
  with n l f T show ?thesis by simp
qed

lemma Persist_ok:
  assumes "Persist w = (None, w')"
  shows "fdata (wal_file w') = stream w \<and> durable (wal_file w') = stream w
         \<and> buf (wal_writer w') = []"
proof -
  from assms obtain w1 where 1: "Writer_Flush w = (None, w1)"
    by (auto simp: Persist_def split: prod.splits option.splits)
  from Writer_Flush_ok[OF 1] have "fdata (wal_file w1) = stream w" by simp
  with assms 1 show ?thesis
    by (auto simp: Persist_def file_Sync_def split: prod.splits option.splits list.splits)
qed

text \<open>
  C2. For a PUT or DEL command (three resp. two tokens) on TCP and on UDP: when
  \<open>WAL.Write\<close> returns an error, the response carries the text of the error and the LSM
  tree is the one from before the command; when it returns none, the tree is the one
  with the mutation applied and the response is OK.
\<close>

theorem wal_error_blocks_mutation:
  assumes "strings_Fields text = op_cmd m"
    and "WAL_Write (Wal db) (op_args m) = (r, w')"
  shows "(r = Some e \<longrightarrow>
            handleLine ops db text
              = (Reply (''Error writing to WAL: '' @ e @ [newline]), db\<lparr>Wal := w'\<rparr>)
            \<and> handleUDPPacket ops db text = (''Error writing to WAL: '' @ e, db\<lparr>Wal := w'\<rparr>)
            \<and> LsmTree (snd (handleLine ops db text)) = LsmTree db
            \<and> LsmTree (snd (handleUDPPacket ops db text)) = LsmTree db)
       \<and> (r = None \<longrightarrow>
            handleLine ops db text
              = (Reply (''OK'' @ [newline]),
                 db\<lparr>LsmTree := apply_mutation ops (LsmTree db) m, Wal := w'\<rparr>)
            \<and> handleUDPPacket ops db text
              = (''OK'', db\<lparr>LsmTree := apply_mutation ops (LsmTree db) m, Wal := w'\<rparr>))"
proof (cases m)
  case (PutOp k v)
  with assms show ?thesis
    by (auto simp: handleLine_def handleUDPPacket_def Let_def)
next
  case (DeleteOp k)
  with assms show ?thesis
    by (auto simp: handleLine_def handleUDPPacket_def Let_def)
qed

theorem wal_error_blocks_mutation_witness:
  "strings_Fields ''PUT foo bar'' = op_cmd (PutOp ''foo'' ''bar'')
   \<and> WAL_Write (Wal (engine0\<lparr>Wal := failed_wal\<rparr>)) (op_args (PutOp ''foo'' ''bar''))
       = (Some ''failed to write to buffer: no space left on device'', failed_wal)
   \<and> handleLine LSM_ops (engine0\<lparr>Wal := failed_wal\<rparr>) ''PUT foo bar''
       = (Reply (''Error writing to WAL: failed to write to buffer: no space left on device''
                 @ [newline]),
          engine0\<lparr>Wal := failed_wal\<rparr>)
   \<and> handleUDPPacket LSM_ops (engine0\<lparr>Wal := failed_wal\<rparr>) ''PUT foo bar''
       = (''Error writing to WAL: failed to write to buffer: no space left on device'',
          engine0\<lparr>Wal := failed_wal\<rparr>)
   \<and> strings_Fields ''DEL foo'' = op_cmd (DeleteOp ''foo'')
   \<and> fst (WAL_Write (Wal engine0) (op_args (DeleteOp ''foo''))) = None
   \<and> handleLine LSM_ops engine0 ''DEL foo''
       = (Reply (''OK'' @ [newline]),
          engine0\<lparr>LsmTree := lsm_del tree0 ''foo'',
                  Wal := snd (WAL_Write (Wal engine0) (op_args (DeleteOp ''foo'')))\<rparr>)"
proof -
  let ?db = "engine0\<lparr>Wal := failed_wal\<rparr>"
  have f: "strings_Fields ''PUT foo bar'' = op_cmd (PutOp ''foo'' ''bar'')"
    by (simp add: strings_Fields_def space_width_def white_space_def)
  have w: "WAL_Write (Wal ?db) (op_args (PutOp ''foo'' ''bar''))
       = (Some ''failed to write to buffer: no space left on device'', failed_wal)"
    by (simp add: WAL_Write_def failed_wal_def Writer_Write.simps Available_def)
  note T = wal_error_blocks_mutation[OF f w,
      of "''failed to write to buffer: no space left on device''" LSM_ops]
  have g: "strings_Fields ''DEL foo'' = op_cmd (DeleteOp ''foo'')"
    by (simp add: strings_Fields_def space_width_def white_space_def)
  have n: "fst (WAL_Write (Wal engine0) (op_args (DeleteOp ''foo''))) = None"
    by (simp add: WAL_Write_def engine0_def new_engine_def OpenOrCreateWAL_def created_file_def
        Writer_Write.simps Available_def)
  then have v: "WAL_Write (Wal engine0) (op_args (DeleteOp ''foo''))
      = (None, snd (WAL_Write (Wal engine0) (op_args (DeleteOp ''foo''))))"
    by (simp add: prod_eq_iff)
  note U = wal_error_blocks_mutation[OF g v, of undefined LSM_ops]
  have "LsmTree engine0 = tree0" by (simp add: engine0_def new_engine_def)
  with U have "handleLine LSM_ops engine0 ''DEL foo''
       = (Reply (''OK'' @ [newline]),
          engine0\<lparr>LsmTree := lsm_del tree0 ''foo'',
                  Wal := snd (WAL_Write (Wal engine0) (op_args (DeleteOp ''foo'')))\<rparr>)"
    by (simp add: LSM_ops_def)
  moreover from T have "handleLine LSM_ops ?db ''PUT foo bar''
       = (Reply (''Error writing to WAL: failed to write to buffer: no space left on device''
                 @ [newline]), ?db)"
    and "handleUDPPacket LSM_ops ?db ''PUT foo bar''
       = (''Error writing to WAL: failed to write to buffer: no space left on device'', ?db)"
    by simp_all
  ultimately show ?thesis using f w g n by simp
qed

text \<open>
  C3. A GET on TCP (any number of tokens) and a GET on UDP (two tokens, the only ones
  that reach a lookup there) first run \<open>wal.Persist\<close> on the WAL. Without I/O faults
  \<open>Persist\<close> succeeds: everything that was buffered is then in the file and synced,
  the buffer is empty, and the response is that of the lookup of the second token. When
  \<open>Persist\<close> fails (a pending write error, a failing write of the flush, a failing
  sync), the response is the persistence error, whatever the tree holds and whatever its
  lookup would do; a one-token GET on TCP, whose lookup would panic, is answered so too.
\<close>

theorem get_forces_persist_before_lookup:
  assumes "strings_Fields text = cmd" and "cmd \<noteq> []" and "hd cmd = ''GET''"
  shows "(no_faults (Wal db) \<longrightarrow>
            (\<exists>w'. Persist (Wal db) = (None, w')
               \<and> fdata (wal_file w') = stream (Wal db) \<and> durable (wal_file w') = stream (Wal db)
               \<and> buf (wal_writer w') = []
               \<and> (2 \<le> length cmd \<longrightarrow>
                    handleLine ops db text
                      = (Reply (lookup_response (Get ops (LsmTree db) (cmd ! 1)) @ [newline]),
                         db\<lparr>Wal := w'\<rparr>))
               \<and> (length cmd = 2 \<longrightarrow>
                    handleUDPPacket ops db text
                      = (lookup_response (Get ops (LsmTree db) (cmd ! 1)), db\<lparr>Wal := w'\<rparr>))))
       \<and> (Persist (Wal db) = (Some e, w1) \<longrightarrow>
            handleLine ops db text
              = (Reply (''Error persisting WAL: '' @ e @ [newline]), db\<lparr>Wal := w1\<rparr>)
            \<and> (length cmd = 2 \<longrightarrow>
                 handleUDPPacket ops db text = (''Error persisting WAL'', db\<lparr>Wal := w1\<rparr>)))
       \<and> (Persist (Wal db) = (None, w2) \<longrightarrow>
            fdata (wal_file w2) = stream (Wal db) \<and> durable (wal_file w2) = stream (Wal db)
            \<and> buf (wal_writer w2) = []
            \<and> (2 \<le> length cmd \<longrightarrow>
                 handleLine ops db text
                   = (Reply (lookup_response (Get ops (LsmTree db) (cmd ! 1)) @ [newline]),
                      db\<lparr>Wal := w2\<rparr>))
            \<and> (length cmd = 2 \<longrightarrow>
                 handleUDPPacket ops db text
                   = (lookup_response (Get ops (LsmTree db) (cmd ! 1)), db\<lparr>Wal := w2\<rparr>)))
       \<and> (werr (wal_writer (Wal db)) = Some e \<longrightarrow>
            Persist (Wal db) = (Some (''failed to flush buffer: '' @ e), Wal db))
       \<and> (werr (wal_writer (Wal db)) = None \<and> buf (wal_writer (Wal db)) \<noteq> []
          \<and> wfaults (wal_file (Wal db)) = Some (n, e) # wfs \<longrightarrow>
            (\<exists>w'. Persist (Wal db) = (Some (''failed to flush buffer: '' @ e), w')
               \<and> fdata (wal_file w') = fdata (wal_file (Wal db)) @ take n (buf (wal_writer (Wal db)))
               \<and> buf (wal_writer w') = drop n (buf (wal_writer (Wal db)))
               \<and> durable (wal_file w') = durable (wal_file (Wal db))))
       \<and> (werr (wal_writer (Wal db)) = None \<and> wfaults (wal_file (Wal db)) = []
          \<and> sfaults (wal_file (Wal db)) = Some e # sf \<longrightarrow>
            (\<exists>w'. Persist (Wal db) = (Some (''failed to sync file: '' @ e), w')
               \<and> fdata (wal_file w') = stream (Wal db)
               \<and> durable (wal_file w') = durable (wal_file (Wal db))))"
proof -
  from assms(2,3) obtain cs where c: "cmd = ''GET'' # cs" by (cases cmd) auto
  have tk: "length cmd = 2 \<Longrightarrow> strings_Trim (cmd ! 1) [newline] = cmd ! 1"
  proof -
    assume "length cmd = 2"
    then have "cmd ! 1 \<in> set (strings_Fields text)" using assms(1) by simp
    then show ?thesis by (intro strings_Trim_no_newline strings_Fields_no_newline)
  qed
  have ok: "Persist (Wal db) = (None, w) \<Longrightarrow>
      fdata (wal_file w) = stream (Wal db) \<and> durable (wal_file w) = stream (Wal db)
      \<and> buf (wal_writer w) = []
      \<and> (2 \<le> length cmd \<longrightarrow>
           handleLine ops db text
             = (Reply (lookup_response (Get ops (LsmTree db) (cmd ! 1)) @ [newline]),
                db\<lparr>Wal := w\<rparr>))
      \<and> (length cmd = 2 \<longrightarrow>
           handleUDPPacket ops db text
             = (lookup_response (Get ops (LsmTree db) (cmd ! 1)), db\<lparr>Wal := w\<rparr>))" for w
  proof -
    assume p: "Persist (Wal db) = (None, w)"
    have "2 \<le> length cmd \<longrightarrow> handleLine ops db text
             = (Reply (lookup_response (Get ops (LsmTree db) (cmd ! 1)) @ [newline]),
                db\<lparr>Wal := w\<rparr>)"
      using p assms(1) c
      by (auto simp: handleLine_def lookup_response_def split: option.splits)
    moreover have "length cmd = 2 \<longrightarrow> handleUDPPacket ops db text
             = (lookup_response (Get ops (LsmTree db) (cmd ! 1)), db\<lparr>Wal := w\<rparr>)"
      using p assms(1) c tk
      by (auto simp: handleUDPPacket_def lookup_response_def split: option.splits)
    moreover have "fdata (wal_file w) = stream (Wal db) \<and> durable (wal_file w) = stream (Wal db)
        \<and> buf (wal_writer w) = []"
    proof -
      from p obtain w0 where fl: "Writer_Flush (Wal db) = (None, w0)"
        by (auto simp: Persist_def split: prod.splits option.splits)
      from Writer_Flush_ok[OF fl] have "fdata (wal_file w0) = stream (Wal db)" by simp
      with p fl show ?thesis
        by (auto simp: Persist_def file_Sync_def split: prod.splits option.splits list.splits)
    qed
    ultimately show ?thesis by simp
  qed
  show ?thesis
  proof (intro conjI impI)
    assume nf: "no_faults (Wal db)"
    from Writer_Flush_no_faults[OF nf]
    obtain w0 where fl: "Writer_Flush (Wal db) = (None, w0)" and n0: "no_faults w0" by blast
    from fl n0 have "\<exists>w'. Persist (Wal db) = (None, w')"
      by (simp add: Persist_def file_Sync_def no_faults_def)
    then obtain w' where p: "Persist (Wal db) = (None, w')" by blast
    from ok[OF p] p show "\<exists>w'. Persist (Wal db) = (None, w')
               \<and> fdata (wal_file w') = stream (Wal db) \<and> durable (wal_file w') = stream (Wal db)
               \<and> buf (wal_writer w') = []
               \<and> (2 \<le> length cmd \<longrightarrow>
                    handleLine ops db text
                      = (Reply (lookup_response (Get ops (LsmTree db) (cmd ! 1)) @ [newline]),
                         db\<lparr>Wal := w'\<rparr>))
               \<and> (length cmd = 2 \<longrightarrow>
                    handleUDPPacket ops db text
                      = (lookup_response (Get ops (LsmTree db) (cmd ! 1)), db\<lparr>Wal := w'\<rparr>))"
      by blast
  next
    assume "Persist (Wal db) = (Some e, w1)"
    with assms(1) c show "handleLine ops db text
        = (Reply (''Error persisting WAL: '' @ e @ [newline]), db\<lparr>Wal := w1\<rparr>)"
      by (simp add: handleLine_def)
  next
    assume "Persist (Wal db) = (Some e, w1)" "length cmd = 2"
    with assms(1) c show "handleUDPPacket ops db text
        = (''Error persisting WAL'', db\<lparr>Wal := w1\<rparr>)"
      by (simp add: handleUDPPacket_def)
  next
    assume p: "Persist (Wal db) = (None, w2)"
    from ok[OF p] show "fdata (wal_file w2) = stream (Wal db)"
      "durable (wal_file w2) = stream (Wal db)" "buf (wal_writer w2) = []" by simp_all
  next
    assume p: "Persist (Wal db) = (None, w2)" and "2 \<le> length cmd"
    with ok[OF p] show "handleLine ops db text
        = (Reply (lookup_response (Get ops (LsmTree db) (cmd ! 1)) @ [newline]), db\<lparr>Wal := w2\<rparr>)"
      by simp
  next
    assume p: "Persist (Wal db) = (None, w2)" and "length cmd = 2"
    with ok[OF p] show "handleUDPPacket ops db text
        = (lookup_response (Get ops (LsmTree db) (cmd ! 1)), db\<lparr>Wal := w2\<rparr>)"
      by simp
  next
    assume "werr (wal_writer (Wal db)) = Some e"
    then show "Persist (Wal db) = (Some (''failed to flush buffer: '' @ e), Wal db)"
      by (simp add: Persist_def Writer_Flush_def)
  next
    assume "werr (wal_writer (Wal db)) = None \<and> buf (wal_writer (Wal db)) \<noteq> []
          \<and> wfaults (wal_file (Wal db)) = Some (n, e) # wfs"
    then show "\<exists>w'. Persist (Wal db) = (Some (''failed to flush buffer: '' @ e), w')
               \<and> fdata (wal_file w') = fdata (wal_file (Wal db)) @ take n (buf (wal_writer (Wal db)))
               \<and> buf (wal_writer w') = drop n (buf (wal_writer (Wal db)))
               \<and> durable (wal_file w') = durable (wal_file (Wal db))"
      by (cases "n \<le> length (buf (wal_writer (Wal db)))")
        (simp_all add: Persist_def Writer_Flush_def file_Write_def min_def)
  next
    assume "werr (wal_writer (Wal db)) = None \<and> wfaults (wal_file (Wal db)) = []
          \<and> sfaults (wal_file (Wal db)) = Some e # sf"
    then show "\<exists>w'. Persist (Wal db) = (Some (''failed to sync file: '' @ e), w')
               \<and> fdata (wal_file w') = stream (Wal db)
               \<and> durable (wal_file w') = durable (wal_file (Wal db))"
      by (simp add: Persist_def Writer_Flush_def file_Write_def file_Sync_def stream_def)
  qed
qed

theorem get_forces_persist_before_lookup_witness:
  "strings_Fields ''GET foo'' = [''GET'', ''foo'']
   \<and> no_faults (Wal engine_buffered)
   \<and> stream (Wal engine_buffered) = ''+|foo|bar|'' @ [newline]
   \<and> fdata (wal_file (Wal engine_buffered)) = []
   \<and> Persist (Wal engine_buffered)
       = (None,
          \<lparr>wal_file = created_file\<lparr>fdata := ''+|foo|bar|'' @ [newline],
                                    durable := ''+|foo|bar|'' @ [newline]\<rparr>,
           wal_writer = \<lparr>buf = [], bsize = 4096, werr = None\<rparr>\<rparr>)
   \<and> handleLine LSM_ops engine_buffered ''GET foo''
       = (Reply (''bar'' @ [newline]),
          engine_buffered\<lparr>Wal :=
            \<lparr>wal_file = created_file\<lparr>fdata := ''+|foo|bar|'' @ [newline],
                                      durable := ''+|foo|bar|'' @ [newline]\<rparr>,
             wal_writer = \<lparr>buf = [], bsize = 4096, werr = None\<rparr>\<rparr>\<rparr>)
   \<and> handleUDPPacket LSM_ops engine_buffered ''GET foo''
       = (''bar'',
          engine_buffered\<lparr>Wal :=
            \<lparr>wal_file = created_file\<lparr>fdata := ''+|foo|bar|'' @ [newline],
                                      durable := ''+|foo|bar|'' @ [newline]\<rparr>,
             wal_writer = \<lparr>buf = [], bsize = 4096, werr = None\<rparr>\<rparr>\<rparr>)
   \<and> Persist (Wal engine_buffered_sync_fails)
       = (Some ''failed to sync file: input/output error'',
          \<lparr>wal_file = created_file\<lparr>fdata := ''+|foo|bar|'' @ [newline]\<rparr>,
           wal_writer = \<lparr>buf = [], bsize = 4096, werr = None\<rparr>\<rparr>)
   \<and> handleLine LSM_ops engine_buffered_sync_fails ''GET foo''
       = (Reply (''Error persisting WAL: failed to sync file: input/output error'' @ [newline]),
          engine_buffered_sync_fails\<lparr>Wal :=
            \<lparr>wal_file = created_file\<lparr>fdata := ''+|foo|bar|'' @ [newline]\<rparr>,
             wal_writer = \<lparr>buf = [], bsize = 4096, werr = None\<rparr>\<rparr>\<rparr>)
   \<and> handleUDPPacket LSM_ops engine_buffered_sync_fails ''GET foo''
       = (''Error persisting WAL'',
          engine_buffered_sync_fails\<lparr>Wal :=
            \<lparr>wal_file = created_file\<lparr>fdata := ''+|foo|bar|'' @ [newline]\<rparr>,
             wal_writer = \<lparr>buf = [], bsize = 4096, werr = None\<rparr>\<rparr>\<rparr>)"
proof -
  let ?ok = "\<lparr>wal_file = created_file\<lparr>fdata := ''+|foo|bar|'' @ [newline],
                                      durable := ''+|foo|bar|'' @ [newline]\<rparr>,
             wal_writer = \<lparr>buf = [], bsize = 4096, werr = None\<rparr>\<rparr>"
  let ?bad = "\<lparr>wal_file = created_file\<lparr>fdata := ''+|foo|bar|'' @ [newline]\<rparr>,
             wal_writer = \<lparr>buf = [], bsize = 4096, werr = None\<rparr>\<rparr>"
  have f: "strings_Fields ''GET foo'' = [''GET'', ''foo'']"
    by (simp add: strings_Fields_def space_width_def white_space_def)
  have ne: "[''GET'', ''foo''] \<noteq> []" and hd: "hd [''GET'', ''foo''] = ''GET''" by simp_all
  have n: "no_faults (Wal engine_buffered)"
    and s: "stream (Wal engine_buffered) = ''+|foo|bar|'' @ [newline]"
    and d: "fdata (wal_file (Wal engine_buffered)) = []"
    by (simp_all add: engine_buffered_def no_faults_def stream_def created_file_def)
  have p1: "Persist (Wal engine_buffered) = (None, ?ok)"
    by (simp add: engine_buffered_def created_file_def Persist_def Writer_Flush_def
        file_Write_def file_Sync_def)
  have p2: "Persist (Wal engine_buffered_sync_fails)
       = (Some ''failed to sync file: input/output error'', ?bad)"
    by (simp add: engine_buffered_sync_fails_def created_file_def Persist_def Writer_Flush_def
        file_Write_def file_Sync_def)
  have g: "Get LSM_ops (LsmTree engine_buffered) ''foo'' = Some ''bar''"
    by code_simp
  note A = get_forces_persist_before_lookup[OF f ne hd, where ops = LSM_ops
      and db = engine_buffered and ?w2.0 = ?ok]
  from A[THEN conjunct2, THEN conjunct2, THEN conjunct1] p1 g
  have t: "handleLine LSM_ops engine_buffered ''GET foo''
            = (Reply (''bar'' @ [newline]), engine_buffered\<lparr>Wal := ?ok\<rparr>)"
    and u: "handleUDPPacket LSM_ops engine_buffered ''GET foo''
            = (''bar'', engine_buffered\<lparr>Wal := ?ok\<rparr>)"
    by (simp_all add: lookup_response_def)
  note C = get_forces_persist_before_lookup[OF f ne hd, where ops = LSM_ops
      and db = engine_buffered_sync_fails and e = "''failed to sync file: input/output error''"
      and ?w1.0 = ?bad]
  from C[THEN conjunct2, THEN conjunct1] p2
  have t2: "handleLine LSM_ops engine_buffered_sync_fails ''GET foo''
       = (Reply (''Error persisting WAL: failed to sync file: input/output error'' @ [newline]),
          engine_buffered_sync_fails\<lparr>Wal := ?bad\<rparr>)"
    and u2: "handleUDPPacket LSM_ops engine_buffered_sync_fails ''GET foo''
       = (''Error persisting WAL'', engine_buffered_sync_fails\<lparr>Wal := ?bad\<rparr>)"
    by simp_all
  from f n s d p1 t u p2 t2 u2 show ?thesis by (simp only: simp_thms)
qed

text \<open>
  C10, as the claim states it, fails: on the one-token line \<open>GET\<close> the TCP handler runs
  \<open>wal.Persist\<close> before it indexes the second token, and when that fails it answers
  with the persistence error and does not panic.
\<close>

theorem tcp_get_one_token_counterexample:
  "strings_Fields ''GET'' = [''GET'']
   \<and> fst (handleLine LSM_ops engine_sync_fails ''GET'')
       = Reply (''Error persisting WAL: failed to sync file: input/output error'' @ [newline])"
  by (simp add: strings_Fields_def space_width_def white_space_def handleLine_def engine_sync_fails_def
      new_engine_def OpenOrCreateWAL_def created_file_def Persist_def Writer_Flush_def
      file_Sync_def)

text \<open>
  C10, amended. The TCP handler does not check the arity of GET: on the one-token line
  \<open>GET\<close> it first runs \<open>wal.Persist\<close>; if that fails it answers with the persistence
  error, and otherwise it indexes the second token, out of range, and panics. In neither
  case does it answer \<open>Invalid command\<close>. The UDP handler answers \<open>Invalid command\<close>
  to that datagram, as to every GET whose number of tokens is not 2, and leaves the
  engine as it was.
\<close>

theorem tcp_get_arity_unchecked:
  assumes "strings_Fields text = [''GET'']" and "Persist (Wal db) = (r, w')"
  shows "(r = None \<longrightarrow>
            handleLine ops db text
              = (Panic ''index out of range [1] with length 1'', db\<lparr>Wal := w'\<rparr>))
       \<and> (r = Some e \<longrightarrow>
            handleLine ops db text
              = (Reply (''Error persisting WAL: '' @ e @ [newline]), db\<lparr>Wal := w'\<rparr>))
       \<and> fst (handleLine ops db text) \<noteq> Reply (''Invalid command'' @ [newline])
       \<and> handleUDPPacket ops db text = (''Invalid command'', db)
       \<and> (strings_Fields text' = ''GET'' # cs \<and> length cs \<noteq> 1 \<longrightarrow>
            handleUDPPacket ops db text' = (''Invalid command'', db))"
  using assms
  by (cases r) (auto simp: handleLine_def handleUDPPacket_def)

theorem tcp_get_arity_unchecked_witness:
  "strings_Fields ''GET'' = [''GET'']
   \<and> fst (Persist (Wal engine0)) = None
   \<and> fst (handleLine LSM_ops engine0 ''GET'') = Panic ''index out of range [1] with length 1''
   \<and> handleUDPPacket LSM_ops engine0 ''GET'' = (''Invalid command'', engine0)
   \<and> strings_Fields ''GET a b'' = [''GET'', ''a'', ''b'']
   \<and> handleUDPPacket LSM_ops engine0 ''GET a b'' = (''Invalid command'', engine0)"
proof -
  have f: "strings_Fields ''GET'' = [''GET'']"
    by (simp add: strings_Fields_def space_width_def white_space_def)
  have g: "strings_Fields ''GET a b'' = ''GET'' # [''a'', ''b''] \<and> length [''a'', ''b''] \<noteq> 1"
    by (simp add: strings_Fields_def space_width_def white_space_def)
  have p: "fst (Persist (Wal engine0)) = None"
    by (simp add: engine0_def new_engine_def OpenOrCreateWAL_def created_file_def
        Persist_def Writer_Flush_def file_Sync_def)
  then have q: "Persist (Wal engine0) = (None, snd (Persist (Wal engine0)))"
    by (simp add: prod_eq_iff)
  note T = tcp_get_arity_unchecked[OF f q, where ops = LSM_ops and text' = "''GET a b''"
      and cs = "[''a'', ''b'']"]
  from T have "fst (handleLine LSM_ops engine0 ''GET'') = Panic ''index out of range [1] with length 1''"
    by simp
  moreover from T have "handleUDPPacket LSM_ops engine0 ''GET'' = (''Invalid command'', engine0)"
    by simp
  moreover from T g have "handleUDPPacket LSM_ops engine0 ''GET a b'' = (''Invalid command'', engine0)"
    by blast
  ultimately show ?thesis using f g p by simp
qed

section \<open>The guard of \<open>WAL.Write\<close>\<close>

lemma Writer_Write_fits:
  assumes "werr (wal_writer w) = None" and "length (buf (wal_writer w)) + length p \<le> bsize (wal_writer w)"
  shows "Writer_Write w p = (None, w\<lparr>wal_writer := (wal_writer w)\<lparr>buf := buf (wal_writer w) @ p\<rparr>\<rparr>)"
proof -
  from assms(2) have "\<not> length p > Available (wal_writer w)" by (simp add: Available_def)
  with assms(1) show ?thesis by (simp add: Writer_Write.simps[of w p])
qed

lemma length_concat_replicate: "length (concat (replicate n xs)) = n * length xs"
  by (induction n) simp_all

lemma WAL_Write_small_record_fits:
  assumes "werr (wal_writer w) = None" and "bsize (wal_writer w) = 4096"
    and "length (buf (wal_writer w)) \<le> 4080"
  shows "WAL_Write w [''+'', ''kkk'', ''vv'']
         = (None, w\<lparr>wal_writer := (wal_writer w)\<lparr>buf := buf (wal_writer w) @ ''+|kkk|vv|'' @ [newline]\<rparr>\<rparr>)"
proof -
  from assms have "\<not> length [''+'', ''kkk'', ''vv''] > Available (wal_writer w)"
    by (simp add: Available_def)
  with assms show ?thesis by (simp add: WAL_Write_def Writer_Write_fits)
qed

lemma write_small_records:
  assumes "werr (wal_writer w) = None" and "bsize (wal_writer w) = 4096"
    and "length (buf (wal_writer w)) + 10 * n \<le> 4090"
  shows "write_ops w (replicate n (PutOp ''kkk'' ''vv''))
         = (None, w\<lparr>wal_writer := (wal_writer w)\<lparr>buf := buf (wal_writer w)
                      @ concat (replicate n (''+|kkk|vv|'' @ [newline]))\<rparr>\<rparr>)"
  using assms
proof (induction n arbitrary: w)
  case 0
  then show ?case by simp
next
  case (Suc n)
  let ?w1 = "w\<lparr>wal_writer := (wal_writer w)\<lparr>buf := buf (wal_writer w) @ ''+|kkk|vv|'' @ [newline]\<rparr>\<rparr>"
  from Suc.prems have 1: "WAL_Write w [''+'', ''kkk'', ''vv''] = (None, ?w1)"
    by (intro WAL_Write_small_record_fits) simp_all
  from Suc.prems have "write_ops ?w1 (replicate n (PutOp ''kkk'' ''vv''))
      = (None, ?w1\<lparr>wal_writer := (wal_writer ?w1)\<lparr>buf := buf (wal_writer ?w1)
                      @ concat (replicate n (''+|kkk|vv|'' @ [newline]))\<rparr>\<rparr>)"
    by (intro Suc.IH) simp_all
  with 1 show ?case by simp
qed

lemma WAL_Write_splits_record:
  assumes "werr (wal_writer w) = None" and "wfaults (wal_file w) = []"
    and "bsize (wal_writer w) = 4096" and "length (buf (wal_writer w)) = 4090"
  shows "WAL_Write w [''+'', ''key'', ''value'']
         = (None, w\<lparr>wal_file := (wal_file w)\<lparr>fdata := fdata (wal_file w) @ buf (wal_writer w) @ ''+|key|''\<rparr>,
                    wal_writer := (wal_writer w)\<lparr>buf := ''value|'' @ [newline]\<rparr>\<rparr>)"
  using assms
  by (simp add: WAL_Write_def Writer_Write.simps Available_def Writer_Flush_def file_Write_def)

text \<open>
  C8. The guard of \<open>WAL.Write\<close> compares the number of arguments, not the number of
  bytes, with the free space of the buffer. After 409 Puts of ten bytes each on a new WAL
  the buffer has 6 bytes free; the next Put, a record of 13 bytes, does not fit, yet no
  flush precedes it: the record is cut by the flush that the buffered writer makes when
  it runs full, so that the file ends with \<open>+|key|\<close> while \<open>value|\<close> and the newline
  wait in the buffer.
\<close>

theorem WAL_Write_record_cut_by_flush:
  "write_ops (OpenOrCreateWAL created_file) (replicate 409 (PutOp ''kkk'' ''vv''))
     = (None, nearly_full_wal)
   \<and> Available (wal_writer nearly_full_wal) = 6
   \<and> length (''+|key|value|'' @ [newline]) = 13
   \<and> WAL_Write nearly_full_wal [''+'', ''key'', ''value'']
     = (None,
        \<lparr>wal_file = created_file\<lparr>fdata :=
            concat (replicate 409 (''+|kkk|vv|'' @ [newline])) @ ''+|key|''\<rparr>,
         wal_writer = \<lparr>buf = ''value|'' @ [newline], bsize = 4096, werr = None\<rparr>\<rparr>)"
proof -
  have l: "length (buf (wal_writer nearly_full_wal)) = 4090"
    by (simp add: nearly_full_wal_def length_concat_replicate)
  have "write_ops (OpenOrCreateWAL created_file) (replicate 409 (PutOp ''kkk'' ''vv''))
     = (None, (OpenOrCreateWAL created_file)\<lparr>wal_writer :=
          (wal_writer (OpenOrCreateWAL created_file))\<lparr>buf := buf (wal_writer (OpenOrCreateWAL created_file))
                      @ concat (replicate 409 (''+|kkk|vv|'' @ [newline]))\<rparr>\<rparr>)"
    by (rule write_small_records) (simp_all add: OpenOrCreateWAL_def)
  then have 1: "write_ops (OpenOrCreateWAL created_file) (replicate 409 (PutOp ''kkk'' ''vv''))
     = (None, nearly_full_wal)"
    by (simp add: OpenOrCreateWAL_def nearly_full_wal_def)
  from l have 2: "Available (wal_writer nearly_full_wal) = 6"
    by (simp add: Available_def) (simp add: nearly_full_wal_def)
  have "WAL_Write nearly_full_wal [''+'', ''key'', ''value'']
      = (None, nearly_full_wal\<lparr>wal_file := (wal_file nearly_full_wal)\<lparr>fdata :=
            fdata (wal_file nearly_full_wal) @ buf (wal_writer nearly_full_wal) @ ''+|key|''\<rparr>,
          wal_writer := (wal_writer nearly_full_wal)\<lparr>buf := ''value|'' @ [newline]\<rparr>\<rparr>)"
    using l by (intro WAL_Write_splits_record) (simp_all add: nearly_full_wal_def created_file_def)
  then have 3: "WAL_Write nearly_full_wal [''+'', ''key'', ''value'']
     = (None,
        \<lparr>wal_file = created_file\<lparr>fdata :=
            concat (replicate 409 (''+|kkk|vv|'' @ [newline])) @ ''+|key|''\<rparr>,
         wal_writer = \<lparr>buf = ''value|'' @ [newline], bsize = 4096, werr = None\<rparr>\<rparr>)"
    by (simp add: nearly_full_wal_def created_file_def)
  from 1 2 3 show ?thesis by simp
qed

section \<open>The LSM index\<close>

lemma map_of_filter_key:
  "map_of (filter (\<lambda>p. fst p \<noteq> k) m) k' = (if k' = k then None else map_of m k')"
  by (induction m) auto

lemma map_of_mem_set:
  "map_of (mem_set k e m) k' = (if k' = k then Some e else map_of m k')"
  by (simp add: mem_set_def map_of_filter_key)

lemma ingest_entry_frame:
  "memtable (ingest_entry t e) = memtable t \<and> bloom (ingest_entry t e) = bloom t
   \<and> MaxElementsBeforeFlush (ingest_entry t e) = MaxElementsBeforeFlush t
   \<and> bloom_hashes (ingest_entry t e) = bloom_hashes t
   \<and> partition_hash (ingest_entry t e) = partition_hash t
   \<and> length (partitions (ingest_entry t e)) = length (partitions t)"
  by (cases "(t, e)" rule: ingest_entry.cases) simp_all

lemma ingest_frame:
  "memtable (ingest t es) = memtable t \<and> bloom (ingest t es) = bloom t
   \<and> MaxElementsBeforeFlush (ingest t es) = MaxElementsBeforeFlush t
   \<and> bloom_hashes (ingest t es) = bloom_hashes t
   \<and> partition_hash (ingest t es) = partition_hash t
   \<and> length (partitions (ingest t es)) = length (partitions t)"
  by (induction es) (simp_all add: ingest_entry_frame)

lemma disk_get_ingest_entry:
  assumes "partitions t \<noteq> []"
  shows "disk_get (ingest_entry t (k, e)) k'
         = (if k' = k then (case e of Val v \<Rightarrow> Some v | Tombstone \<Rightarrow> None) else disk_get t k')"
proof -
  from assms have lt: "partition_id t k < length (partitions t)"
    by (simp add: partition_id_def)
  show ?thesis
  proof (cases e)
    case (Val v)
    with lt show ?thesis
      by (auto simp: disk_get_def partition_id_def nth_list_update map_of_mem_set)
  next
    case Tombstone
    with lt show ?thesis
      by (auto simp: disk_get_def partition_id_def nth_list_update map_of_filter_key)
  qed
qed

lemma disk_get_ingest:
  assumes "partitions t \<noteq> []"
  shows "disk_get (ingest t es) k
         = (case map_of es k of Some (Val v) \<Rightarrow> Some v | Some Tombstone \<Rightarrow> None
            | None \<Rightarrow> disk_get t k)"
proof (induction es)
  case Nil
  then show ?case by simp
next
  case (Cons e es)
  obtain k0 x where e: "e = (k0, x)" by (cases e)
  from assms ingest_frame[of t es] have "partitions (ingest t es) \<noteq> []" by auto
  from disk_get_ingest_entry[OF this, of k0 x k] Cons e show ?case
    by (simp split: mval.splits)
qed


lemma disk_get_memtable_update [simp]:
  "disk_get (t\<lparr>memtable := m\<rparr>) k = disk_get t k"
  by (simp add: disk_get_def partition_id_def)

lemma disk_get_bloom_update [simp]:
  "disk_get (t\<lparr>bloom := b\<rparr>) k = disk_get t k"
  by (simp add: disk_get_def partition_id_def)

lemma bloom_contains_memtable_update [simp]:
  "bloom_contains (t\<lparr>memtable := m\<rparr>) k = bloom_contains t k"
  by (simp add: bloom_contains_def)

lemma lsm_flush_frame:
  "bloom_contains (lsm_flush t) k = bloom_contains t k
   \<and> (partitions (lsm_flush t) \<noteq> [] \<longleftrightarrow> partitions t \<noteq> [])
   \<and> memtable (lsm_flush t) = []"
  using ingest_frame[of t "memtable t"]
  by (auto simp: lsm_flush_def bloom_contains_def)

lemma view_lsm_flush:
  assumes "partitions t \<noteq> []"
  shows "view (lsm_flush t) k = view t k"
  using disk_get_ingest[OF assms, of "memtable t" k]
  by (simp add: view_def lsm_flush_def)

lemma saturation_check_frame:
  "bloom_contains (saturation_check t) k = bloom_contains t k
   \<and> (partitions (saturation_check t) \<noteq> [] \<longleftrightarrow> partitions t \<noteq> [])"
  using lsm_flush_frame[of t k] by (simp add: saturation_check_def)

lemma view_saturation_check:
  "partitions t \<noteq> [] \<Longrightarrow> view (saturation_check t) k = view t k"
  by (simp add: saturation_check_def view_lsm_flush)

lemma lsm_get_view: "bloom_contains t k \<Longrightarrow> lsm_get t k = view t k"
  by (simp add: lsm_get_def view_def)

lemma lsm_put_frame:
  "partitions (lsm_put t k v) \<noteq> [] \<longleftrightarrow> partitions t \<noteq> []"
  using saturation_check_frame[of "lsm_put_unchecked t k v"]
  by (simp add: lsm_put_def lsm_put_unchecked_def)

lemma bloom_contains_lsm_put:
  "bloom_contains (lsm_put t k v) k' \<longleftrightarrow> bloom_contains (lsm_put_unchecked t k v) k'"
  using saturation_check_frame[of "lsm_put_unchecked t k v" k'] by (simp add: lsm_put_def)

lemma bloom_contains_put_unchecked:
  "bloom_contains (lsm_put_unchecked t k v) k"
  "bloom_contains t k' \<Longrightarrow> bloom_contains (lsm_put_unchecked t k v) k'"
  by (auto simp: lsm_put_unchecked_def bloom_contains_def bloom_insert_def)

lemma view_put_unchecked:
  "view (lsm_put_unchecked t k v) k' = (if k' = k then Some v else view t k')"
proof -
  have "disk_get (lsm_put_unchecked t k v) k' = disk_get t k'"
    by (simp add: lsm_put_unchecked_def disk_get_def partition_id_def)
  moreover have "map_of (memtable (lsm_put_unchecked t k v)) k'
      = (if k' = k then Some (Val v) else map_of (memtable t) k')"
    by (simp add: lsm_put_unchecked_def map_of_mem_set)
  ultimately show ?thesis by (simp add: view_def split: option.splits mval.splits)
qed

lemma view_lsm_put:
  assumes "partitions t \<noteq> []"
  shows "view (lsm_put t k v) k' = (if k' = k then Some v else view t k')"
proof -
  from assms have "partitions (lsm_put_unchecked t k v) \<noteq> []"
    by (simp add: lsm_put_unchecked_def)
  then show ?thesis
    by (simp add: lsm_put_def view_saturation_check view_put_unchecked)
qed

lemma flushes_keep:
  assumes "partitions t \<noteq> []"
  shows "partitions ((lsm_flush ^^ n) t) \<noteq> []
         \<and> view ((lsm_flush ^^ n) t) k = view t k
         \<and> (bloom_contains ((lsm_flush ^^ n) t) k \<longleftrightarrow> bloom_contains t k)"
proof (induction n)
  case 0
  with assms show ?case by simp
next
  case (Suc n)
  with lsm_flush_frame[of "(lsm_flush ^^ n) t" k] view_lsm_flush[of "(lsm_flush ^^ n) t" k]
  show ?case by simp
qed

lemma get_after_put:
  assumes "partitions t \<noteq> []"
  shows "lsm_get ((lsm_flush ^^ n) (lsm_put t k v)) k = Some v"
proof -
  from assms have p: "partitions (lsm_put t k v) \<noteq> []" by (simp add: lsm_put_frame)
  have "bloom_contains (lsm_put t k v) k"
    by (simp add: bloom_contains_lsm_put bloom_contains_put_unchecked)
  with flushes_keep[OF p, of n k] view_lsm_put[OF assms, of k v k] show ?thesis
    by (simp add: lsm_get_view)
qed

section \<open>Put, then get\<close>

text \<open>
  C1, as the claim states it, fails: a key of 65536 bytes is not empty and holds no
  white space, pipe or newline, yet the scanner of the connection cannot deliver the
  lines \<open>PUT k v\<close> and \<open>GET k\<close>. The loop ends at the first of them without a
  response and with the engine untouched, and the connection is closed.
\<close>

theorem put_then_get_long_key_counterexample:
  "token (replicate 65536 (CHR ''k'')) \<and> token ''v''
   \<and> set (replicate 65536 (CHR ''k'')) = {CHR ''k''}
   \<and> no_faults (Wal engine0)
   \<and> handleConnection LSM_ops engine0
        (''PUT '' @ replicate 65536 (CHR ''k'') @ '' v'' @ [newline]
         @ ''GET '' @ replicate 65536 (CHR ''k'') @ [newline])
       = (([], False), engine0)"
proof -
  have "handleConnection LSM_ops engine0
        ((''PUT '' @ replicate 65536 (CHR ''k'') @ '' v'') @ newline #
         (''GET '' @ replicate 65536 (CHR ''k'') @ [newline]))
       = (([], False), engine0)"
    by (rule handleConnection_too_long) (simp_all add: MaxScanTokenSize_def)
  moreover have "token (replicate 65536 (CHR ''k''))"
    using no_space_replicate[of 65536]
    by (simp add: token_def)
  moreover have "token ''v''" by (simp add: token_def space_width_def white_space_def)
  moreover have "no_faults (Wal engine0)"
    by (simp add: engine0_def new_engine_def no_faults_def OpenOrCreateWAL_def created_file_def)
  ultimately show ?thesis by simp
qed

text \<open>
  C1, amended. On one connection and a WAL without I/O faults, for a key and a value
  that are tokens of the protocol (not empty, no white space) and short enough for the
  line \<open>PUT k v\<close> to stay below the 65536 bytes that the scanner of the connection
  can deliver: the line \<open>PUT k v\<close> is answered OK, its record is appended to the log
  and the put is applied to the tree; the line \<open>GET k\<close> that follows is answered with
  \<open>v\<close>, also when the index has been flushed any number of times in between.
\<close>

theorem put_then_get_returns_value:
  assumes "token k" and "token v" and "length k + length v + 5 < MaxScanTokenSize"
    and "no_faults (Wal db)" and "partitions (LsmTree db) \<noteq> []"
  shows "\<exists>db1 db2.
           handleLine LSM_ops db (''PUT '' @ k @ '' '' @ v) = (Reply (''OK'' @ [newline]), db1)
           \<and> stream (Wal db1) = stream (Wal db) @ ''+|'' @ k @ ''|'' @ v @ ''|'' @ [newline]
           \<and> LsmTree db1 = lsm_put (LsmTree db) k v
           \<and> handleLine LSM_ops (db1\<lparr>LsmTree := (lsm_flush ^^ n) (LsmTree db1)\<rparr>) (''GET '' @ k)
               = (Reply (v @ [newline]), db2)
           \<and> fst (handleConnection LSM_ops db
                    (''PUT '' @ k @ '' '' @ v @ [newline] @ ''GET '' @ k @ [newline]))
               = ([''OK'' @ [newline], v @ [newline]], False)"
proof -
  from WAL_Write_no_faults[OF assms(4), of "[''+'', k, v]"]
  obtain w1 where w1: "WAL_Write (Wal db) [''+'', k, v] = (None, w1)" and n1: "no_faults w1"
    by blast
  from WAL_Write_ok[OF w1]
  have s1: "stream w1 = stream (Wal db) @ ''+|'' @ k @ ''|'' @ v @ ''|'' @ [newline]" by simp
  let ?db1 = "db\<lparr>LsmTree := lsm_put (LsmTree db) k v, Wal := w1\<rparr>"
  have put: "handleLine LSM_ops db (''PUT '' @ k @ '' '' @ v) = (Reply (''OK'' @ [newline]), ?db1)"
    using w1
    by (simp only: handleLine_def strings_Fields_put[OF assms(1,2)]) (simp add: LSM_ops_def)
  from Persist_no_faults[OF n1] obtain w2 where w2: "Persist w1 = (None, w2)" by blast
  have get: "handleLine LSM_ops (?db1\<lparr>LsmTree := (lsm_flush ^^ m) (LsmTree ?db1)\<rparr>) (''GET '' @ k)
      = (Reply (v @ [newline]), ?db1\<lparr>LsmTree := (lsm_flush ^^ m) (LsmTree ?db1), Wal := w2\<rparr>)" for m
  proof -
    have "lsm_get ((lsm_flush ^^ m) (lsm_put (LsmTree db) k v)) k = Some v"
      using assms(5) by (rule get_after_put)
    with w2 show ?thesis
      by (simp only: handleLine_def strings_Fields_get[OF assms(1)]) (simp add: LSM_ops_def)
  qed
  from assms(1,2) no_space_no_newline[of k] no_space_no_newline[of v]
  have nk: "newline \<notin> set k" "CHR 0x0D \<notin> set k" and nv: "newline \<notin> set v" "CHR 0x0D \<notin> set v"
    by (simp_all add: token_def)
  let ?p = "''PUT '' @ k @ '' '' @ v" and ?g = "''GET '' @ k"
  from nk nv have lp: "newline \<notin> set ?p" "dropCR ?p = ?p" and lg: "newline \<notin> set ?g" "dropCR ?g = ?g"
    by (simp_all add: dropCR_id)
  from assms(3) have bp: "length ?p < MaxScanTokenSize" and bg: "length ?g < MaxScanTokenSize"
    by simp_all
  have e0: "?db1\<lparr>LsmTree := (lsm_flush ^^ 0) (LsmTree ?db1)\<rparr> = ?db1" by simp
  have get0: "handleLine LSM_ops ?db1 (dropCR ?g)
      = (Reply (v @ [newline]), ?db1\<lparr>Wal := w2\<rparr>)"
    unfolding lg(2) by (rule get[of 0, unfolded e0])
  have put0: "handleLine LSM_ops db (dropCR ?p) = (Reply (''OK'' @ [newline]), ?db1)"
    unfolding lp(2) using put by simp
  have "handleConnection LSM_ops ?db1 (?g @ newline # [])
        = (([v @ [newline]], False), ?db1\<lparr>Wal := w2\<rparr>)"
    using handleConnection_reply[OF lg(1) bg get0, of "[]"] by (simp add: handleConnection_Nil)
  with handleConnection_reply[OF lp(1) bp put0, of "?g @ newline # []"]
  have "fst (handleConnection LSM_ops db (?p @ newline # (?g @ newline # [])))
        = ([''OK'' @ [newline], v @ [newline]], False)"
    by simp
  then have conn: "fst (handleConnection LSM_ops db
                    (''PUT '' @ k @ '' '' @ v @ [newline] @ ''GET '' @ k @ [newline]))
               = ([''OK'' @ [newline], v @ [newline]], False)"
    by simp
  from put s1 get[of n] conn show ?thesis
    by (intro exI[of _ ?db1]
        exI[of _ "?db1\<lparr>LsmTree := (lsm_flush ^^ n) (LsmTree ?db1), Wal := w2\<rparr>"]) simp
qed

theorem put_then_get_returns_value_witness:
  "token ''foo'' \<and> token ''bar'' \<and> length ''foo'' + length ''bar'' + 5 < MaxScanTokenSize
   \<and> no_faults (Wal engine0) \<and> partitions (LsmTree engine0) \<noteq> []
   \<and> (\<exists>db1 db2.
         handleLine LSM_ops engine0 ''PUT foo bar'' = (Reply (''OK'' @ [newline]), db1)
         \<and> stream (Wal db1) = ''+|foo|bar|'' @ [newline]
         \<and> handleLine LSM_ops (db1\<lparr>LsmTree := lsm_flush (LsmTree db1)\<rparr>) ''GET foo''
             = (Reply (''bar'' @ [newline]), db2))
   \<and> fst (handleConnection LSM_ops engine0 (''PUT foo bar'' @ [newline] @ ''GET foo'' @ [newline]))
       = ([''OK'' @ [newline], ''bar'' @ [newline]], False)"
proof -
  have t: "token ''foo''" "token ''bar''"
    by (simp_all add: token_def space_width_def white_space_def)
  have b: "length ''foo'' + length ''bar'' + 5 < MaxScanTokenSize"
    by (simp add: MaxScanTokenSize_def)
  have n: "no_faults (Wal engine0)"
    by (simp add: engine0_def new_engine_def no_faults_def OpenOrCreateWAL_def created_file_def)
  have p: "partitions (LsmTree engine0) \<noteq> []"
    by (simp add: engine0_def new_engine_def tree0_def new_tree_def)
  have s: "stream (Wal engine0) = []"
    by (simp add: engine0_def new_engine_def stream_def OpenOrCreateWAL_def created_file_def)
  from put_then_get_returns_value[OF t b n p, of 1] s
  obtain db1 db2 where
    1: "handleLine LSM_ops engine0 ''PUT foo bar'' = (Reply (''OK'' @ [newline]), db1)"
    and 2: "stream (Wal db1) = ''+|foo|bar|'' @ [newline]"
    and 3: "handleLine LSM_ops (db1\<lparr>LsmTree := lsm_flush (LsmTree db1)\<rparr>) ''GET foo''
             = (Reply (''bar'' @ [newline]), db2)"
    and 4: "fst (handleConnection LSM_ops engine0 (''PUT foo bar'' @ [newline] @ ''GET foo'' @ [newline]))
       = ([''OK'' @ [newline], ''bar'' @ [newline]], False)"
    by auto
  from 1 2 3 have "\<exists>db1 db2.
         handleLine LSM_ops engine0 ''PUT foo bar'' = (Reply (''OK'' @ [newline]), db1)
         \<and> stream (Wal db1) = ''+|foo|bar|'' @ [newline]
         \<and> handleLine LSM_ops (db1\<lparr>LsmTree := lsm_flush (LsmTree db1)\<rparr>) ''GET foo''
             = (Reply (''bar'' @ [newline]), db2)"
    by blast
  with t b n p 4 show ?thesis by simp
qed

section \<open>Recovery\<close>


















section \<open>Startup order\<close>




end
